theory Spec2Isabelle
  imports Complex_Main "HOL-Library.Multiset"
begin

section \<open>Data model of the build orchestrator\<close>

text \<open>
  The dataclasses \<^verbatim>\<open>BuildAgent\<close> and \<^verbatim>\<open>BuildTask\<close> of
  \<^verbatim>\<open>ninja-team.py\<close>. Python's unbounded integers are \<open>int\<close>. A float is the
  real number it denotes (timestamps from \<^verbatim>\<open>time.time()\<close> are finite floats); the
  arithmetic on floats is not the arithmetic of the reals and is introduced where the
  code computes with them. A string is the UTF-8 encoding of the Python \<^verbatim>\<open>str\<close>, so a
  code point beyond ASCII takes several characters. Status values stay the strings the
  source writes. A field shared by both dataclasses carries a prefix (\<open>a_\<close> for the
  agent, \<open>t_\<close> for the task), since record fields are global constants.

  An agent object is referred to by its position in the registry, which is the insertion
  order of the dictionary \<^verbatim>\<open>self.agents\<close>: \<^verbatim>\<open>assigned_agent\<close> and the
  value returned by \<^verbatim>\<open>_reserve_agent\<close> are such positions.
\<close>

record BuildAgent =
  name :: string
  host :: string
  port :: int
  cores :: int
  a_status :: string
  current_task :: "string option"
  load :: real
  available_memory :: int
  last_seen :: real

record BuildTask =
  target :: string
  directory :: string
  priority :: int
  dependencies :: "string list"
  assigned_agent :: "nat option"
  t_status :: string
  start_time :: "real option"
  end_time :: "real option"

text \<open>The exceptions of the interpreter that the operations below can raise.\<close>

datatype py_error = RecursionError | OSError | ValueError | TypeError

text \<open>
  A binary64 float: a finite one, written as the real number it denotes (the two zeros
  are one number, and compare equal in Python), an infinity, or not a number.
\<close>

datatype py_float = Finite real | PosInf | NegInf | NaN

text \<open>
  A configuration value as \<^verbatim>\<open>json.load\<close> yields it: an integer of any size (the
  default interval is the integer 5, and a JSON boolean is an integer too), a float
  (\<^verbatim>\<open>json.load\<close> also reads \<^verbatim>\<open>Infinity\<close> and \<^verbatim>\<open>NaN\<close>), or a value that is not a
  number (a string, a list, a dictionary or \<^verbatim>\<open>None\<close>).
\<close>

datatype py_value = PyInt int | PyFloat py_float | PyOther

text \<open>
  The fields of \<^verbatim>\<open>NinjaTeamOrchestrator\<close> that the scheduler reads and writes.
  Both dictionaries are association lists in insertion order; \<open>files\<close> holds the regular
  files of the file system the orchestrator reads and writes (path to content), and
  \<open>heartbeat_interval\<close> is \<^verbatim>\<open>self.config["heartbeat_interval"]\<close>.
\<close>

record orchestrator =
  agents :: "(string \<times> BuildAgent) list"
  build_tasks :: "BuildTask list"
  completed_tasks :: "BuildTask list"
  build_graph :: "(string \<times> string list) list"
  heartbeat_interval :: py_value
  files :: "(string \<times> string) list"

text \<open>
  \<^verbatim>\<open>d[k] = v\<close> on a dictionary: an existing key keeps its position and gets the new
  value, a new key is appended.
\<close>

fun dict_set :: "'k \<Rightarrow> 'v \<Rightarrow> ('k \<times> 'v) list \<Rightarrow> ('k \<times> 'v) list" where
  "dict_set k v [] = [(k, v)]"
| "dict_set k v (p # ps) = (if fst p = k then (k, v) # ps else p # dict_set k v ps)"

text \<open>
  \<^verbatim>\<open>sorted(xs, key=f, reverse=True)\<close> and \<^verbatim>\<open>xs.sort(key=f, reverse=True)\<close> for an
  integer key: descending by key, and elements with equal keys keep their original
  order (Python's sort is stable also under \<^verbatim>\<open>reverse=True\<close>).
\<close>

definition sort_desc :: "('a \<Rightarrow> int) \<Rightarrow> 'a list \<Rightarrow> 'a list" where
  "sort_desc f xs = sort_key (\<lambda>x. - f x) xs"

section \<open>Agent reservation\<close>

text \<open>
  \<^verbatim>\<open>_reserve_agent\<close>: the idle agents in registry order, sorted by cores descending;
  the first one is marked busy and gets the task's target. The result is the position of
  the reserved agent, or \<open>None\<close>.
\<close>

definition idle_agents :: "orchestrator \<Rightarrow> nat list" where
  "idle_agents s = filter (\<lambda>i. a_status (snd (agents s ! i)) = ''idle'') [0..<length (agents s)]"

definition reserve_agent :: "BuildTask \<Rightarrow> orchestrator \<Rightarrow> nat option \<times> orchestrator" where
  "reserve_agent task s =
     (case sort_desc (\<lambda>i. cores (snd (agents s ! i))) (idle_agents s) of
        [] \<Rightarrow> (None, s)
      | best # _ \<Rightarrow>
          (Some best,
           s\<lparr>agents := (agents s)[best :=
                (fst (agents s ! best),
                 (snd (agents s ! best))\<lparr>a_status := ''busy'', current_task := Some (target task)\<rparr>)]\<rparr>))"

section \<open>Ready-task selection\<close>

text \<open>
  The test \<^verbatim>\<open>all(dep in completed_targets for dep in task.dependencies)\<close> and the scan
  of \<^verbatim>\<open>_get_next_task\<close>: the first task of the list that passes the test, together
  with the list without it (\<^verbatim>\<open>self.build_tasks.pop(i)\<close>).
\<close>

definition deps_completed :: "string set \<Rightarrow> BuildTask \<Rightarrow> bool" where
  "deps_completed completed_targets task \<longleftrightarrow>
     list_all (\<lambda>dep. dep \<in> completed_targets) (dependencies task)"

fun pop_ready :: "string set \<Rightarrow> BuildTask list \<Rightarrow> (BuildTask \<times> BuildTask list) option" where
  "pop_ready done [] = None"
| "pop_ready done (t # ts) =
     (if deps_completed done t then Some (t, ts)
      else (case pop_ready done ts of
              None \<Rightarrow> None
            | Some (r, rest) \<Rightarrow> Some (r, t # rest)))"

text \<open>
  \<^verbatim>\<open>_get_next_task\<close>: the pending list is sorted in place first, so it stays
  sorted also when no task is ready.
\<close>

definition get_next_task :: "orchestrator \<Rightarrow> BuildTask option \<times> orchestrator" where
  "get_next_task s =
     (let sorted_tasks = sort_desc priority (build_tasks s);
          completed_targets = set (map target (completed_tasks s))
      in case pop_ready completed_targets sorted_tasks of
           None \<Rightarrow> (None, s\<lparr>build_tasks := sorted_tasks\<rparr>)
         | Some (task, rest) \<Rightarrow> (Some task, s\<lparr>build_tasks := rest\<rparr>))"

section \<open>Topological sort\<close>

text \<open>
  \<^verbatim>\<open>_topological_sort\<close> keeps three mutable variables that the nested function
  \<^verbatim>\<open>visit\<close> updates: \<^verbatim>\<open>visited\<close>, \<^verbatim>\<open>temp_visited\<close> and \<^verbatim>\<open>result\<close>.
\<close>

record dfs_state =
  visited :: "string set"
  temp_visited :: "string set"
  result :: "BuildTask list"

text \<open>
  \<^verbatim>\<open>{task.target: task for task in tasks}\<close>: for a target that occurs twice, the later
  task wins.
\<close>

definition target_to_task :: "BuildTask list \<Rightarrow> string \<rightharpoonup> BuildTask" where
  "target_to_task tasks = map_of (rev (map (\<lambda>t. (target t, t)) tasks))"

text \<open>\<^verbatim>\<open>self.build_graph.get(target, [])\<close>\<close>

definition graph_get :: "(string \<times> string list) list \<Rightarrow> string \<Rightarrow> string list" where
  "graph_get g k = (case map_of g k of None \<Rightarrow> [] | Some deps \<Rightarrow> deps)"

text \<open>
  \<^verbatim>\<open>visit\<close> is recursive through the loop over the dependencies, and every call takes
  a frame of the interpreter. The first argument is the number of nested calls the
  interpreter still allows when \<^verbatim>\<open>visit\<close> is called; a call beyond that raises
  \<^verbatim>\<open>RecursionError\<close>, which nothing in the orchestrator catches. The second argument
  is the number of nested calls that one call of \<^verbatim>\<open>logger.warning\<close> needs; the other
  operations of \<^verbatim>\<open>visit\<close> are built-in and take no frame. \<open>visit_deps\<close> is the loop
  \<^verbatim>\<open>for dep in self.build_graph.get(target, [])\<close>.
\<close>

fun visit :: "nat \<Rightarrow> nat \<Rightarrow> (string \<times> string list) list \<Rightarrow> (string \<rightharpoonup> BuildTask) \<Rightarrow> string
                \<Rightarrow> dfs_state \<Rightarrow> py_error + dfs_state"
  and visit_deps :: "nat \<Rightarrow> nat \<Rightarrow> (string \<times> string list) list \<Rightarrow> (string \<rightharpoonup> BuildTask)
                \<Rightarrow> string list \<Rightarrow> dfs_state \<Rightarrow> py_error + dfs_state" where
  "visit 0 log_depth g tt tg st = Inl RecursionError"
| "visit (Suc n) log_depth g tt tg st =
     (if tg \<in> temp_visited st
      then (if log_depth \<le> n then Inr st else Inl RecursionError)
      else if tg \<in> visited st then Inr st
      else (case visit_deps n log_depth g tt (graph_get g tg)
                   (st\<lparr>temp_visited := insert tg (temp_visited st)\<rparr>) of
              Inl e \<Rightarrow> Inl e
            | Inr st' \<Rightarrow>
                Inr (st'\<lparr>temp_visited := temp_visited st' - {tg},
                         visited := insert tg (visited st'),
                         result := result st' @ (case tt tg of None \<Rightarrow> [] | Some t \<Rightarrow> [t])\<rparr>)))"
| "visit_deps n log_depth g tt [] st = Inr st"
| "visit_deps n log_depth g tt (dep # deps) st =
     (if tt dep \<noteq> None
      then (case visit n log_depth g tt dep st of
              Inl e \<Rightarrow> Inl e
            | Inr st' \<Rightarrow> visit_deps n log_depth g tt deps st')
      else visit_deps n log_depth g tt deps st)"

text \<open>The loop \<^verbatim>\<open>for task in tasks: if task.target not in visited: visit(task.target)\<close>.\<close>

fun visit_all :: "nat \<Rightarrow> nat \<Rightarrow> (string \<times> string list) list \<Rightarrow> (string \<rightharpoonup> BuildTask)
                \<Rightarrow> BuildTask list \<Rightarrow> dfs_state \<Rightarrow> py_error + dfs_state" where
  "visit_all n log_depth g tt [] st = Inr st"
| "visit_all n log_depth g tt (task # tasks) st =
     (if target task \<notin> visited st
      then (case visit n log_depth g tt (target task) st of
              Inl e \<Rightarrow> Inl e
            | Inr st' \<Rightarrow> visit_all n log_depth g tt tasks st')
      else visit_all n log_depth g tt tasks st)"

text \<open>
  \<^verbatim>\<open>_topological_sort\<close>, where \<open>depth\<close> is the number of nested calls the interpreter
  still allows at the calls of \<^verbatim>\<open>visit\<close> in its loop. The copy of the task list and
  the map from targets to tasks are built before the loop; the comprehension of the map
  takes no more than the one frame that the first call of \<^verbatim>\<open>visit\<close> takes.
\<close>

definition topological_sort :: "nat \<Rightarrow> nat \<Rightarrow> orchestrator \<Rightarrow> py_error + BuildTask list" where
  "topological_sort depth log_depth s =
     map_sum id result
       (visit_all depth log_depth (build_graph s) (target_to_task (build_tasks s)) (build_tasks s)
          \<lparr>visited = {}, temp_visited = {}, result = []\<rparr>)"

section \<open>Priority assignment\<close>

text \<open>\<^verbatim>\<open>sum(1 for t in self.build_graph.values() if task.target in t)\<close>\<close>

definition dependents_count :: "(string \<times> string list) list \<Rightarrow> string \<Rightarrow> int" where
  "dependents_count g tg = int (length (filter (\<lambda>t. tg \<in> set t) (map snd g)))"

text \<open>The loop \<^verbatim>\<open>for i, task in enumerate(sorted_tasks)\<close> of \<^verbatim>\<open>optimize_build_plan\<close>.\<close>

definition assign_priorities :: "(string \<times> string list) list \<Rightarrow> BuildTask list \<Rightarrow> BuildTask list" where
  "assign_priorities g sorted_tasks =
     map (\<lambda>(i, task). task\<lparr>priority := int i + dependents_count g (target task) * 10\<rparr>)
       (enumerate 0 sorted_tasks)"

text \<open>
  \<^verbatim>\<open>optimize_build_plan\<close>; a \<^verbatim>\<open>RecursionError\<close> of the topological sort passes
  through it, and the pending list is then unchanged.
\<close>

definition optimize_build_plan :: "nat \<Rightarrow> nat \<Rightarrow> orchestrator \<Rightarrow> py_error + orchestrator" where
  "optimize_build_plan depth log_depth s =
     (case topological_sort depth log_depth s of
        Inl e \<Rightarrow> Inl e
      | Inr sorted_tasks \<Rightarrow>
          Inr (s\<lparr>build_tasks := sort_desc priority (assign_priorities (build_graph s) sorted_tasks)\<rparr>))"

section \<open>Heartbeat monitor\<close>

text \<open>
  The arithmetic of binary64 floats, as far as the monitor uses it: \<open>fsub x y\<close> is the
  float that Python computes for \<^verbatim>\<open>x - y\<close> on two finite floats, and \<open>fmul x y\<close> the
  one it computes for \<^verbatim>\<open>x * y\<close>, that is, the exact results rounded, an infinity on
  overflow. They are parameters: nothing below depends on how the rounding goes.
\<close>

record float_arith =
  fsub :: "real \<Rightarrow> real \<Rightarrow> py_float"
  fmul :: "py_float \<Rightarrow> py_float \<Rightarrow> py_float"

text \<open>
  \<^verbatim>\<open>x > y\<close> on two floats, and on a float and an integer. Both are exact in Python;
  a comparison with \<^verbatim>\<open>nan\<close> is false.
\<close>

fun float_gt :: "py_float \<Rightarrow> py_float \<Rightarrow> bool" where
  "float_gt (Finite x) (Finite y) = (x > y)"
| "float_gt (Finite x) NegInf = True"
| "float_gt PosInf (Finite y) = True"
| "float_gt PosInf NegInf = True"
| "float_gt x y = False"

fun float_gt_int :: "py_float \<Rightarrow> int \<Rightarrow> bool" where
  "float_gt_int (Finite x) i = (x > of_int i)"
| "float_gt_int PosInf i = True"
| "float_gt_int x i = False"

text \<open>
  The test \<^verbatim>\<open>current_time - agent.last_seen > self.config["heartbeat_interval"] * 3\<close>.
  The difference is one of floats. The product is the exact integer for an integer
  interval and the float product with \<^verbatim>\<open>3.0\<close> for a float interval; for an interval
  that is not a number the product or the comparison raises \<^verbatim>\<open>TypeError\<close>.
\<close>

definition stale_test :: "float_arith \<Rightarrow> real \<Rightarrow> py_value \<Rightarrow> BuildAgent \<Rightarrow> py_error + bool" where
  "stale_test fa current_time interval agent =
     (case interval of
        PyInt i \<Rightarrow> Inr (float_gt_int (fsub fa current_time (last_seen agent)) (i * 3))
      | PyFloat x \<Rightarrow>
          Inr (float_gt (fsub fa current_time (last_seen agent)) (fmul fa x (Finite 3)))
      | PyOther \<Rightarrow> Inl TypeError)"

text \<open>
  The body of the loop over the agents in \<^verbatim>\<open>_agent_heartbeat_monitor\<close>, for one
  agent.
\<close>

definition heartbeat_check :: "float_arith \<Rightarrow> real \<Rightarrow> py_value \<Rightarrow> BuildAgent \<Rightarrow> py_error + BuildAgent" where
  "heartbeat_check fa current_time interval agent =
     (case stale_test fa current_time interval agent of
        Inl e \<Rightarrow> Inl e
      | Inr stale \<Rightarrow>
          Inr (if stale
               then (if host agent = ''localhost''
                     then agent\<lparr>last_seen := current_time\<rparr>
                     else agent\<lparr>a_status := ''unavailable''\<rparr>)
               else agent))"

text \<open>
  The loop \<^verbatim>\<open>for agent_name, agent in list(self.agents.items())\<close>. The test can only
  raise for an interval that is not a number, and then it raises for the first agent,
  before any agent has been changed.
\<close>

fun heartbeat_loop :: "float_arith \<Rightarrow> real \<Rightarrow> py_value \<Rightarrow> (string \<times> BuildAgent) list
                         \<Rightarrow> py_error + (string \<times> BuildAgent) list" where
  "heartbeat_loop fa current_time interval [] = Inr []"
| "heartbeat_loop fa current_time interval (entry # entries) =
     (case heartbeat_check fa current_time interval (snd entry) of
        Inl e \<Rightarrow> Inl e
      | Inr agent \<Rightarrow>
          (case heartbeat_loop fa current_time interval entries of
             Inl e \<Rightarrow> Inl e
           | Inr entries' \<Rightarrow> Inr ((fst entry, agent) # entries')))"

text \<open>
  The critical section of one iteration of \<^verbatim>\<open>_agent_heartbeat_monitor\<close>, entered at
  time \<open>current_time\<close>.
\<close>

definition agent_heartbeat_monitor :: "float_arith \<Rightarrow> real \<Rightarrow> orchestrator \<Rightarrow> py_error + orchestrator" where
  "agent_heartbeat_monitor fa current_time s =
     (case heartbeat_loop fa current_time (heartbeat_interval s) (agents s) of
        Inl e \<Rightarrow> Inl e
      | Inr entries \<Rightarrow> Inr (s\<lparr>agents := entries\<rparr>))"

section \<open>Task execution\<close>

text \<open>
  What the local build command does is an input: the exit status of the process, or an
  exception raised while running it.
\<close>

datatype exec_outcome = Exited int | ExecRaised

text \<open>
  \<^verbatim>\<open>_execute_task_on_agent\<close>; \<open>t0\<close> and \<open>t1\<close> are the clock readings at the start and
  at the end. On a remote agent the execution is simulated and always succeeds.
\<close>

definition execute_task_on_agent ::
    "real \<Rightarrow> real \<Rightarrow> exec_outcome \<Rightarrow> BuildTask \<Rightarrow> nat \<Rightarrow> BuildAgent \<Rightarrow> bool \<times> BuildTask" where
  "execute_task_on_agent t0 t1 outcome task ref agent =
     (let task = task\<lparr>start_time := Some t0, t_status := ''running'', assigned_agent := Some ref\<rparr>
      in if host agent = ''localhost''
         then (case outcome of
                 Exited returncode \<Rightarrow>
                   (returncode = 0,
                    task\<lparr>end_time := Some t1,
                         t_status := (if returncode = 0 then ''completed'' else ''failed'')\<rparr>)
               | ExecRaised \<Rightarrow> (False, task\<lparr>end_time := Some t1, t_status := ''failed''\<rparr>))
         else (True, task\<lparr>end_time := Some t1, t_status := ''completed''\<rparr>))"

text \<open>The critical section at the end of the loop body of \<^verbatim>\<open>_task_executor\<close>.\<close>

definition release_and_resolve :: "nat \<Rightarrow> BuildTask \<Rightarrow> bool \<Rightarrow> orchestrator \<Rightarrow> orchestrator" where
  "release_and_resolve ref task success s =
     (let s' = s\<lparr>agents := (agents s)[ref :=
                  (fst (agents s ! ref),
                   (snd (agents s ! ref))\<lparr>a_status := ''idle'', current_task := None\<rparr>)]\<rparr>
      in if success
         then s'\<lparr>completed_tasks := completed_tasks s' @ [task]\<rparr>
         else s'\<lparr>build_tasks := build_tasks s' @ [task\<lparr>priority := priority task div 2\<rparr>]\<rparr>)"

text \<open>Execution of a task on a reserved agent, followed by the resolution.\<close>

definition run_on_agent ::
    "real \<Rightarrow> real \<Rightarrow> exec_outcome \<Rightarrow> BuildTask \<Rightarrow> nat \<Rightarrow> orchestrator \<Rightarrow> orchestrator" where
  "run_on_agent t0 t1 outcome task ref s =
     (case execute_task_on_agent t0 t1 outcome task ref (snd (agents s ! ref)) of
        (success, task') \<Rightarrow> release_and_resolve ref task' success s)"

text \<open>One iteration of the loop of \<^verbatim>\<open>_task_executor\<close>.\<close>

definition task_executor :: "real \<Rightarrow> real \<Rightarrow> exec_outcome \<Rightarrow> orchestrator \<Rightarrow> orchestrator" where
  "task_executor t0 t1 outcome s =
     (case get_next_task s of
        (None, s1) \<Rightarrow> s1
      | (Some task, s1) \<Rightarrow>
          (case reserve_agent task s1 of
             (None, s2) \<Rightarrow> s2\<lparr>build_tasks := build_tasks s2 @ [task]\<rparr>
           | (Some ref, s2) \<Rightarrow> run_on_agent t0 t1 outcome task ref s2))"

text \<open>
  The invariant of the traversal, for a task table \<open>tt\<close>: a target in progress is not
  finished, the result lists the finished targets once each, and every task in the result
  is the table's entry for its target.
\<close>

definition dfs_inv :: "(string \<rightharpoonup> BuildTask) \<Rightarrow> dfs_state \<Rightarrow> bool" where
  "dfs_inv tt st \<longleftrightarrow>
     visited st \<inter> temp_visited st = {}
     \<and> distinct (map target (result st))
     \<and> target ` set (result st) = visited st
     \<and> visited st \<subseteq> dom tt
     \<and> list_all (\<lambda>t. tt (target t) = Some t) (result st)"

section \<open>String operations of the Python library\<close>

text \<open>
  The operations work on the UTF-8 encoding of a \<^verbatim>\<open>str\<close>. The code points for which
  \<^verbatim>\<open>str.isspace\<close> holds, each in its encoding: the ASCII ones, U+0085, U+00A0, U+1680,
  U+2000 to U+200A, U+2028, U+2029, U+202F, U+205F and U+3000.
\<close>

definition py_spaces :: "string list" where
  "py_spaces =
     [[CHR 0x09], [CHR 0x0A], [CHR 0x0B], [CHR 0x0C], [CHR 0x0D],
      [CHR 0x1C], [CHR 0x1D], [CHR 0x1E], [CHR 0x1F], [CHR 0x20],
      [CHR 0xC2, CHR 0x85], [CHR 0xC2, CHR 0xA0],
      [CHR 0xE1, CHR 0x9A, CHR 0x80],
      [CHR 0xE2, CHR 0x80, CHR 0x80], [CHR 0xE2, CHR 0x80, CHR 0x81],
      [CHR 0xE2, CHR 0x80, CHR 0x82], [CHR 0xE2, CHR 0x80, CHR 0x83],
      [CHR 0xE2, CHR 0x80, CHR 0x84], [CHR 0xE2, CHR 0x80, CHR 0x85],
      [CHR 0xE2, CHR 0x80, CHR 0x86], [CHR 0xE2, CHR 0x80, CHR 0x87],
      [CHR 0xE2, CHR 0x80, CHR 0x88], [CHR 0xE2, CHR 0x80, CHR 0x89],
      [CHR 0xE2, CHR 0x80, CHR 0x8A],
      [CHR 0xE2, CHR 0x80, CHR 0xA8], [CHR 0xE2, CHR 0x80, CHR 0xA9],
      [CHR 0xE2, CHR 0x80, CHR 0xAF], [CHR 0xE2, CHR 0x81, CHR 0x9F],
      [CHR 0xE3, CHR 0x80, CHR 0x80]]"

text \<open>
  The line boundaries of \<^verbatim>\<open>str.splitlines\<close>: a carriage return followed by a line
  feed counts as one boundary and comes first; then the single ASCII boundaries, U+0085,
  U+2028 and U+2029.
\<close>

definition py_linebreaks :: "string list" where
  "py_linebreaks =
     [[CHR 0x0D, CHR 0x0A],
      [CHR 0x0A], [CHR 0x0B], [CHR 0x0C], [CHR 0x0D], [CHR 0x1C], [CHR 0x1D], [CHR 0x1E],
      [CHR 0xC2, CHR 0x85], [CHR 0xE2, CHR 0x80, CHR 0xA8], [CHR 0xE2, CHR 0x80, CHR 0xA9]]"

definition startswith :: "string \<Rightarrow> string \<Rightarrow> bool" where
  "startswith s p \<longleftrightarrow> take (length p) s = p"

text \<open>
  The length of the first of the given patterns that the string starts with, and 0 when
  it starts with none of them.
\<close>

definition match_len :: "string list \<Rightarrow> string \<Rightarrow> nat" where
  "match_len pats s = (case filter (startswith s) pats of [] \<Rightarrow> 0 | p # _ \<Rightarrow> length p)"

text \<open>
  Removal of the leading occurrences of the patterns; the first argument counts the
  characters of an occurrence that are still to be removed.
\<close>

fun strip_left :: "string list \<Rightarrow> nat \<Rightarrow> string \<Rightarrow> string" where
  "strip_left pats k [] = []"
| "strip_left pats (Suc k) (c # cs) = strip_left pats k cs"
| "strip_left pats 0 (c # cs) =
     (case match_len pats (c # cs) of
        0 \<Rightarrow> c # cs
      | Suc k \<Rightarrow> strip_left pats k cs)"

text \<open>
  \<^verbatim>\<open>s.strip()\<close>: white space is removed at both ends. At the end of the string the
  encodings are matched backwards, which finds the same code points, since the first
  character of an encoding never occurs inside another one.
\<close>

definition strip :: "string \<Rightarrow> string" where
  "strip s = rev (strip_left (map rev py_spaces) 0 (rev (strip_left py_spaces 0 s)))"

text \<open>\<^verbatim>\<open>s.split()\<close>: the maximal runs of code points that are not white space.\<close>

fun split_acc :: "nat \<Rightarrow> string \<Rightarrow> string \<Rightarrow> string list" where
  "split_acc k w [] = (if w = [] then [] else [w])"
| "split_acc (Suc k) w (c # cs) = split_acc k w cs"
| "split_acc 0 w (c # cs) =
     (case match_len py_spaces (c # cs) of
        0 \<Rightarrow> split_acc 0 (w @ [c]) cs
      | Suc k \<Rightarrow> (if w = [] then split_acc k [] cs else w # split_acc k [] cs))"

definition split :: "string \<Rightarrow> string list" where
  "split s = split_acc 0 [] s"

text \<open>
  \<^verbatim>\<open>s.splitlines()\<close>: the lines between the boundaries, and no empty last line after a
  final boundary.
\<close>

fun splitlines_acc :: "nat \<Rightarrow> string \<Rightarrow> string \<Rightarrow> string list" where
  "splitlines_acc k l [] = (if l = [] then [] else [l])"
| "splitlines_acc (Suc k) l (c # cs) = splitlines_acc k l cs"
| "splitlines_acc 0 l (c # cs) =
     (case match_len py_linebreaks (c # cs) of
        0 \<Rightarrow> splitlines_acc 0 (l @ [c]) cs
      | Suc k \<Rightarrow> l # splitlines_acc k [] cs)"

definition splitlines :: "string \<Rightarrow> string list" where
  "splitlines s = splitlines_acc 0 [] s"

text \<open>\<^verbatim>\<open>os.path.join(a, b)\<close> of \<^verbatim>\<open>posixpath\<close>, for a relative \<open>b\<close>.\<close>

definition path_join :: "string \<Rightarrow> string \<Rightarrow> string" where
  "path_join a b = (if a = [] \<or> last a = CHR ''/'' then a @ b else a @ ''/'' @ b)"

section \<open>Ingestion of the build graph\<close>

text \<open>
  What a command run through \<^verbatim>\<open>subprocess.check_output(...).decode()\<close> yields: its
  decoded output, \<^verbatim>\<open>CalledProcessError\<close> for a non-zero exit status, or another
  exception (the output was not decodable, the shell could not be started).
\<close>

datatype cmd_outcome = Output string | CalledProcessError | OtherException

text \<open>
  The external build tool, as the two queries the orchestrator makes of it. Both read
  the file system; the second and third arguments are the build directory and the
  target.
\<close>

record build_tool =
  targets_all :: "(string \<times> string) list \<Rightarrow> string \<Rightarrow> cmd_outcome"
  query :: "(string \<times> string) list \<Rightarrow> string \<Rightarrow> string \<Rightarrow> cmd_outcome"

text \<open>The two files \<^verbatim>\<open>parse_build_tasks\<close> writes when there is no \<^verbatim>\<open>build.ninja\<close>.\<close>

definition unlines :: "string list \<Rightarrow> string" where
  "unlines ls = concat (map (\<lambda>l. l @ [CHR 0x0A]) ls)"

definition minimal_build_ninja :: "string \<Rightarrow> string" where
  "minimal_build_ninja build_dir = unlines
     [''# Minimal build.ninja file generated by ninja-team.py'',
      ''rule cxx'',
      ''  command = g++ -MMD -MT $out -MF $out.d -o $out -c $in'',
      ''  description = CXX $out'',
      ''  depfile = $out.d'',
      ''  deps = gcc'',
      '''',
      ''rule link'',
      ''  command = g++ -o $out $in'',
      ''  description = LINK $out'',
      '''',
      ''build '' @ build_dir @ ''/placeholder.o: cxx placeholder.cpp'',
      ''build '' @ build_dir @ ''/placeholder: link '' @ build_dir @ ''/placeholder.o'',
      '''',
      ''default '' @ build_dir @ ''/placeholder'']"

definition placeholder_cpp :: string where
  "placeholder_cpp = unlines
     [''// Placeholder source file for build system'',
      ''#include <iostream>'',
      '''',
      ''int main() {'',
      ''    std::cout << '' @ [CHR 0x22] @ ''Watsonx Code Assistant Ninja Build Team''
         @ [CHR 0x5C] @ ''n'' @ [CHR 0x22] @ '';'',
      ''    return 0;'',
      ''}'']"

text \<open>\<^verbatim>\<open>BuildTask(target=target, directory=build_dir, dependencies=deps)\<close>\<close>

definition new_task :: "string \<Rightarrow> string \<Rightarrow> string list \<Rightarrow> BuildTask" where
  "new_task tg build_dir deps =
     \<lparr>target = tg, directory = build_dir, priority = 0, dependencies = deps,
      assigned_agent = None, t_status = ''pending'', start_time = None, end_time = None\<rparr>"

text \<open>The targets read from the output of the listing command.\<close>

definition parse_targets :: "string \<Rightarrow> string list" where
  "parse_targets output =
     filter (\<lambda>tg. tg \<noteq> [])
       (map (\<lambda>line. strip (takeWhile (\<lambda>c. c \<noteq> CHR '':'') line))
          (filter (\<lambda>line. line \<noteq> [] \<and> \<not> startswith line ''#'') (splitlines output)))"

text \<open>The dependencies read from the output of the query for one target.\<close>

definition parse_deps :: "string \<Rightarrow> string list" where
  "parse_deps output =
     map strip (filter (\<lambda>line. strip line \<noteq> []) (drop 1 (splitlines output)))"

text \<open>
  The loop over the targets. A \<^verbatim>\<open>CalledProcessError\<close> is caught inside the loop, any
  other exception leaves the loop and reaches the handler that returns \<^verbatim>\<open>False\<close>.
\<close>

fun query_targets :: "(string \<Rightarrow> cmd_outcome) \<Rightarrow> string \<Rightarrow> string list \<Rightarrow> orchestrator
                        \<Rightarrow> bool \<times> orchestrator" where
  "query_targets q build_dir [] s = (True, s)"
| "query_targets q build_dir (tg # tgs) s =
     (case q tg of
        Output output \<Rightarrow>
          query_targets q build_dir tgs
            (s\<lparr>build_tasks := build_tasks s @ [new_task tg build_dir (parse_deps output)],
               build_graph := dict_set tg (parse_deps output) (build_graph s)\<rparr>)
      | CalledProcessError \<Rightarrow> query_targets q build_dir tgs s
      | OtherException \<Rightarrow> (False, s))"

text \<open>
  The targets whose query produced output, each with the dependencies read from it, in
  the order of the queries. The loop above is stated in terms of this list below.
\<close>

definition answered :: "(string \<Rightarrow> cmd_outcome) \<Rightarrow> string list \<Rightarrow> (string \<times> string list) list" where
  "answered q tgs =
     concat (map (\<lambda>tg. case q tg of Output output \<Rightarrow> [(tg, parse_deps output)] | _ \<Rightarrow> []) tgs)"

text \<open>
  What a call of the operating system does to the regular files: it succeeds, or it
  raises an exception (\<^verbatim>\<open>OSError\<close> or one of its subclasses as a rule,
  \<^verbatim>\<open>ValueError\<close> for a path with a null character) and leaves the files in the
  given state.
\<close>

datatype os_outcome = Succeeds | Raises py_error "(string \<times> string) list"

text \<open>
  The operating system, as far as \<^verbatim>\<open>parse_build_tasks\<close> calls it, each operation
  depending on the files: \<^verbatim>\<open>os.path.exists(path)\<close>,
  \<^verbatim>\<open>os.makedirs(path, exist_ok=True)\<close>, and opening a path for writing and writing
  the content. A successful \<^verbatim>\<open>makedirs\<close> changes no regular file; a successful write
  gives the path the content.
\<close>

record os_env =
  path_exists :: "(string \<times> string) list \<Rightarrow> string \<Rightarrow> bool"
  makedirs :: "(string \<times> string) list \<Rightarrow> string \<Rightarrow> os_outcome"
  write_file :: "(string \<times> string) list \<Rightarrow> string \<Rightarrow> string \<Rightarrow> os_outcome"

text \<open>
  The first part of \<^verbatim>\<open>parse_build_tasks\<close>, which stands before its \<^verbatim>\<open>try\<close>: when
  there is no \<^verbatim>\<open>build.ninja\<close>, the build directory is created and the two files are
  written. An exception of one of the three calls leaves \<^verbatim>\<open>parse_build_tasks\<close>; it
  is paired with the state at that point. The placeholder source goes to the working
  directory, not to the build directory.
\<close>

definition prepare_build_file :: "os_env \<Rightarrow> string \<Rightarrow> orchestrator
                                    \<Rightarrow> (py_error \<times> orchestrator) + orchestrator" where
  "prepare_build_file os build_dir s =
     (let ninja_file = path_join build_dir ''build.ninja''
      in if path_exists os (files s) ninja_file then Inr s
         else (case makedirs os (files s) build_dir of
                 Raises e fs \<Rightarrow> Inl (e, s\<lparr>files := fs\<rparr>)
               | Succeeds \<Rightarrow>
                   (case write_file os (files s) ninja_file (minimal_build_ninja build_dir) of
                      Raises e fs \<Rightarrow> Inl (e, s\<lparr>files := fs\<rparr>)
                    | Succeeds \<Rightarrow>
                        (let fs1 = dict_set ninja_file (minimal_build_ninja build_dir) (files s)
                         in case write_file os fs1 ''placeholder.cpp'' placeholder_cpp of
                              Raises e fs \<Rightarrow> Inl (e, s\<lparr>files := fs\<rparr>)
                            | Succeeds \<Rightarrow>
                                Inr (s\<lparr>files := dict_set ''placeholder.cpp'' placeholder_cpp fs1\<rparr>)))))"

text \<open>
  The second part, inside the \<^verbatim>\<open>try\<close>: the listing command and the loop over the
  targets. Every exception here ends in \<^verbatim>\<open>return False\<close>.
\<close>

definition list_and_query :: "build_tool \<Rightarrow> string \<Rightarrow> orchestrator \<Rightarrow> bool \<times> orchestrator" where
  "list_and_query tool build_dir s =
     (case targets_all tool (files s) build_dir of
        Output output \<Rightarrow>
          query_targets (query tool (files s) build_dir) build_dir (parse_targets output) s
      | CalledProcessError \<Rightarrow> (False, s)
      | OtherException \<Rightarrow> (False, s))"

text \<open>
  \<^verbatim>\<open>parse_build_tasks\<close>: the value returned, or the exception that leaves the
  function, and the state.
\<close>

definition parse_build_tasks :: "os_env \<Rightarrow> build_tool \<Rightarrow> string \<Rightarrow> orchestrator
                                   \<Rightarrow> (py_error + bool) \<times> orchestrator" where
  "parse_build_tasks os tool build_dir s =
     (case prepare_build_file os build_dir s of
        Inl (e, s') \<Rightarrow> (Inl e, s')
      | Inr s1 \<Rightarrow> (case list_and_query tool build_dir s1 of (ok, s2) \<Rightarrow> (Inr ok, s2)))"

section \<open>Agent discovery\<close>

text \<open>
  What the exchange with a host yields: the decoded text received, or one of the
  exceptions that connecting, sending, receiving and decoding raise.
\<close>

datatype probe_io = Received string | ConnectionRefused | TimedOut | Undecodable

text \<open>
  The environment of a probe. \<open>connect\<close> is the exchange with the host and port.
  \<open>agent_payload\<close> is \<^verbatim>\<open>json.loads\<close> followed by the three lookups
  \<^verbatim>\<open>agent_data['name']\<close>, \<^verbatim>\<open>agent_data['cores']\<close> and \<^verbatim>\<open>agent_data['memory']\<close>,
  with \<open>None\<close> when any of them raises; the values have the types the dataclass
  declares. \<open>py_int\<close> is the builtin \<^verbatim>\<open>int\<close> on a string, \<open>None\<close> for
  \<^verbatim>\<open>ValueError\<close>. \<open>clock\<close> is the time at which the agent object for a host and
  port is created.
\<close>

record probe_env =
  connect :: "string \<Rightarrow> int \<Rightarrow> probe_io"
  agent_payload :: "string \<Rightarrow> (string \<times> int \<times> int) option"
  py_int :: "string \<Rightarrow> int option"
  clock :: "string \<Rightarrow> int \<Rightarrow> real"

definition DEFAULT_PORT :: int where
  "DEFAULT_PORT = 8374"

text \<open>\<^verbatim>\<open>_probe_and_register_agent\<close>: every exception is caught and logged.\<close>

definition probe_and_register_agent :: "probe_env \<Rightarrow> string \<Rightarrow> int \<Rightarrow> orchestrator \<Rightarrow> orchestrator" where
  "probe_and_register_agent env h p s =
     (case connect env h p of
        Received raw \<Rightarrow>
          (let response = strip raw
           in if startswith response ''NINJA-AGENT:''
              then (case agent_payload env (drop 12 response) of
                      None \<Rightarrow> s
                    | Some (n, c, m) \<Rightarrow>
                        s\<lparr>agents := dict_set n
                             \<lparr>name = n, host = h, port = p, cores = c, a_status = ''idle'',
                              current_task = None, load = 0, available_memory = m,
                              last_seen = clock env h p\<rparr>
                             (agents s)\<rparr>)
              else s)
      | ConnectionRefused \<Rightarrow> s
      | TimedOut \<Rightarrow> s
      | Undecodable \<Rightarrow> s)"

text \<open>
  A probe failure: the connection is refused or times out, the reply cannot be decoded,
  or the reply does not carry the agent prefix followed by a payload from which the three
  fields can be read.
\<close>

definition probe_fails :: "probe_env \<Rightarrow> string \<Rightarrow> int \<Rightarrow> bool" where
  "probe_fails env h p \<longleftrightarrow>
     (case connect env h p of
        Received raw \<Rightarrow>
          \<not> startswith (strip raw) ''NINJA-AGENT:''
          \<or> agent_payload env (drop 12 (strip raw)) = None
      | ConnectionRefused \<Rightarrow> True
      | TimedOut \<Rightarrow> True
      | Undecodable \<Rightarrow> True)"

text \<open>
  The loop over the lines of the hosts file. A port that \<^verbatim>\<open>int\<close> rejects raises
  \<^verbatim>\<open>ValueError\<close>, which the handler around the whole loop catches: the lines after
  it are not read.
\<close>

fun hosts_loop :: "probe_env \<Rightarrow> string list \<Rightarrow> orchestrator \<Rightarrow> orchestrator" where
  "hosts_loop env [] s = s"
| "hosts_loop env (line # rest) s =
     (let l = strip line
      in if l \<noteq> [] \<and> \<not> startswith l ''#''
         then (case split l of
                 [] \<Rightarrow> hosts_loop env rest s
               | [h] \<Rightarrow> hosts_loop env rest (probe_and_register_agent env h DEFAULT_PORT s)
               | h # p # _ \<Rightarrow>
                   (case py_int env p of
                      None \<Rightarrow> s
                    | Some port_no \<Rightarrow> hosts_loop env rest (probe_and_register_agent env h port_no s)))
         else hosts_loop env rest s)"

text \<open>
  \<^verbatim>\<open>_discover_from_hosts_file\<close>; the argument is the list of the lines read from the
  file (all of them, or those before the point at which reading raises), or \<open>None\<close>
  when the file cannot be opened. Every exception ends in the handler, which logs it.
\<close>

definition discover_from_hosts_file :: "probe_env \<Rightarrow> string list option \<Rightarrow> orchestrator \<Rightarrow> orchestrator" where
  "discover_from_hosts_file env hosts_file s =
     (case hosts_file of None \<Rightarrow> s | Some ls \<Rightarrow> hosts_loop env ls s)"

section \<open>Concrete inputs\<close>

text \<open>Agents, tasks and states on which the theorems below are instantiated.\<close>

definition example_agent :: "string \<Rightarrow> string \<Rightarrow> int \<Rightarrow> string \<Rightarrow> real \<Rightarrow> BuildAgent" where
  "example_agent n h c st seen =
     \<lparr>name = n, host = h, port = 8374, cores = c, a_status = st,
      current_task = None, load = 0, available_memory = 8192, last_seen = seen\<rparr>"

definition example_task :: "string \<Rightarrow> int \<Rightarrow> string list \<Rightarrow> BuildTask" where
  "example_task tg p deps =
     \<lparr>target = tg, directory = ''build'', priority = p, dependencies = deps,
      assigned_agent = None, t_status = ''pending'', start_time = None, end_time = None\<rparr>"

definition example_state :: "(string \<times> BuildAgent) list \<Rightarrow> BuildTask list \<Rightarrow> BuildTask list
                               \<Rightarrow> (string \<times> string list) list \<Rightarrow> orchestrator" where
  "example_state ags pending completed graph =
     \<lparr>agents = ags, build_tasks = pending, completed_tasks = completed, build_graph = graph,
      heartbeat_interval = PyInt 5, files = []\<rparr>"

text \<open>A registry of four agents; the second is busy, the last two have eight cores each.\<close>

definition registry4 :: orchestrator where
  "registry4 = example_state
     [(''n0'', example_agent ''n0'' ''localhost'' 4 ''idle'' 0),
      (''n1'', example_agent ''n1'' ''h1'' 16 ''busy'' 0),
      (''n2'', example_agent ''n2'' ''h2'' 8 ''idle'' 0),
      (''n3'', example_agent ''n3'' ''h3'' 8 ''idle'' 0)] [] [] []"

text \<open>
  Three pending tasks and nothing completed: \<open>app\<close> has the highest priority but waits
  for \<open>lib\<close>.
\<close>

definition pending3 :: orchestrator where
  "pending3 = example_state []
     [example_task ''lib'' 1 [], example_task ''app'' 5 [''lib''], example_task ''doc'' 3 []] [] []"




text \<open>
  Float arithmetic on numbers whose difference or product binary64 represents, as it does
  for whole numbers and halves of moderate size: the rounded result is then the exact one.
  A product with an infinity is the infinity of the product's sign, and \<^verbatim>\<open>nan\<close> when
  the other factor is zero.
\<close>

fun exact_mul :: "py_float \<Rightarrow> py_float \<Rightarrow> py_float" where
  "exact_mul (Finite a) (Finite b) = Finite (a * b)"
| "exact_mul NaN y = NaN"
| "exact_mul x NaN = NaN"
| "exact_mul (Finite a) y =
     (if a = 0 then NaN else if (0 < a) = (y = PosInf) then PosInf else NegInf)"
| "exact_mul x (Finite b) =
     (if b = 0 then NaN else if (0 < b) = (x = PosInf) then PosInf else NegInf)"
| "exact_mul x y = (if x = y then PosInf else NegInf)"

definition exact_arith :: float_arith where
  "exact_arith = \<lparr>fsub = (\<lambda>x y. Finite (x - y)), fmul = exact_mul\<rparr>"

text \<open>
  Four agents seen at different times, with the default heartbeat interval, the integer
  5: at time 100 the first and the third are beyond the window of fifteen seconds.
\<close>

definition heartbeat4 :: orchestrator where
  "heartbeat4 = example_state
     [(''n0'', example_agent ''n0'' ''localhost'' 4 ''idle'' 0),
      (''n1'', example_agent ''n1'' ''localhost'' 4 ''idle'' 92),
      (''n2'', example_agent ''n2'' ''h2'' 8 ''busy'' 50),
      (''n3'', example_agent ''n3'' ''h3'' 8 ''idle'' 90)] [] [] []"

text \<open>One idle local agent and one pending task of priority 7 without dependencies.\<close>

definition local1 :: orchestrator where
  "local1 = example_state [(''n0'', example_agent ''n0'' ''localhost'' 4 ''idle'' 0)]
     [example_task ''x'' 7 []] [] [(''x'', [])]"

text \<open>The local agent reserved for the task \<open>x\<close>, which has left the pending list.\<close>

definition busy1 :: orchestrator where
  "busy1 = example_state
     [(''n0'', (example_agent ''n0'' ''localhost'' 4 ''busy'' 0)\<lparr>current_task := Some ''x''\<rparr>)]
     [] [] [(''x'', [])]"

text \<open>
  The task \<open>app\<close> depends on \<open>lib\<close> and on \<open>ext\<close>, which is the target of no task; in
  the second state \<open>lib\<close> is completed.
\<close>

definition unknown_dep :: orchestrator where
  "unknown_dep = example_state []
     [example_task ''lib'' 0 [], example_task ''app'' 0 [''lib'', ''ext'']] []
     [(''lib'', []), (''app'', [''lib'', ''ext''])]"

definition unknown_dep_lib_done :: orchestrator where
  "unknown_dep_lib_done = example_state []
     [example_task ''app'' 0 [''lib'', ''ext'']] [example_task ''lib'' 0 []]
     [(''lib'', []), (''app'', [''lib'', ''ext''])]"

text \<open>A single task that lists its own target among its dependencies.\<close>

definition self_dep :: orchestrator where
  "self_dep = example_state [] [example_task ''A'' 0 [''A'']] [] [(''A'', [''A''])]"

text \<open>
  Three build tools. The first lists two targets and fails every query with a non-zero
  exit status; the second fails every command; the third answers the query for \<open>app\<close>
  only.
\<close>

definition queries_fail :: build_tool where
  "queries_fail =
     \<lparr>targets_all = (\<lambda>fs build_dir. Output (unlines [''lib: cxx'', ''app: link''])),
      query = (\<lambda>fs build_dir tg. CalledProcessError)\<rparr>"

definition no_tool :: build_tool where
  "no_tool =
     \<lparr>targets_all = (\<lambda>fs build_dir. CalledProcessError),
      query = (\<lambda>fs build_dir tg. CalledProcessError)\<rparr>"

definition one_query_fails :: build_tool where
  "one_query_fails =
     \<lparr>targets_all = (\<lambda>fs build_dir. Output (unlines [''lib: cxx'', ''app: link''])),
      query = (\<lambda>fs build_dir tg.
                 if tg = ''app'' then Output (unlines [''app:'', ''  input: link'', ''    lib''])
                 else CalledProcessError)\<rparr>"

text \<open>
  An operating system in which a path exists when it is a regular file, every write
  succeeds, and \<^verbatim>\<open>os.makedirs\<close> raises for the empty path only, for which it always
  raises \<^verbatim>\<open>FileNotFoundError\<close>, a subclass of \<^verbatim>\<open>OSError\<close>.
\<close>

definition plain_os :: os_env where
  "plain_os =
     \<lparr>path_exists = (\<lambda>fs path. map_of fs path \<noteq> None),
      makedirs = (\<lambda>fs path. if path = [] then Raises OSError fs else Succeeds),
      write_file = (\<lambda>fs path content. Succeeds)\<rparr>"

text \<open>A state with nothing in it, and one whose build directory has a \<^verbatim>\<open>build.ninja\<close>.\<close>

definition empty_state :: orchestrator where
  "empty_state = example_state [] [] [] []"

definition with_ninja_file :: orchestrator where
  "with_ninja_file = empty_state\<lparr>files := [(''build/build.ninja'', ''rule cxx'')]\<rparr>"

text \<open>
  A probe environment: host \<open>h2\<close> answers with a capability response between a no-break
  space (U+00A0) and a line feed, host \<open>h3\<close> with something else, every other host refuses
  the connection.
\<close>

definition example_env :: probe_env where
  \<open>example_env =
     \<lparr>connect = (\<lambda>h p.
         if h = ''h2''
         then Received ([CHR 0xC2, CHR 0xA0]
                         @ ''NINJA-AGENT:{"name": "w2", "cores": 8, "memory": 4096}''
                         @ [CHR 0x0A])
         else if h = ''h3'' then Received ''HTTP/1.1 400 Bad Request''
         else ConnectionRefused),
      agent_payload = (\<lambda>payload.
         if payload = ''{"name": "w2", "cores": 8, "memory": 4096}''
         then Some (''w2'', 8, 4096) else None),
      py_int = (\<lambda>s. if s = ''9000'' then Some 9000 else None),
      clock = (\<lambda>h p. 50)\<rparr>\<close>

text \<open>
  A hosts file of four lines; in the last one a no-break space (U+00A0) follows the host
  name.
\<close>

definition example_hosts :: "string list" where
  "example_hosts =
     map (\<lambda>l. l @ [CHR 0x0A])
       [''h1 9000'', ''# build farm'', ''h3'', ''h2'' @ [CHR 0xC2, CHR 0xA0]]"

section \<open>Properties of agent reservation\<close>

text \<open>
  The head of a stably sorted list splits the original list: everything before it has a
  strictly larger key, everything after it a key at least as large.
\<close>


lemma hd_sort_key_split:
  "xs \<noteq> [] \<Longrightarrow> \<exists>ys zs. xs = ys @ hd (sort_key f xs) # zs
      \<and> (\<forall>y\<in>set ys. f (hd (sort_key f xs)) < f y)
      \<and> (\<forall>z\<in>set zs. f (hd (sort_key f xs)) \<le> f z)"
proof (induction xs)
  case Nil
  then show ?case by simp
next
  case (Cons x xs)
  show ?case
  proof (cases "xs = []")
    case True
    then show ?thesis
      by (intro exI [of _ "[]"]) simp
  next
    case False
    let ?h = "hd (sort_key f xs)"
    from False obtain t where st: "sort_key f xs = ?h # t"
      using length_sort [of f xs] by (cases "sort_key f xs") auto
    from Cons.IH [OF False] obtain ys zs where
      split: "xs = ys @ ?h # zs" and
      before: "\<forall>y\<in>set ys. f ?h < f y" and
      after: "\<forall>z\<in>set zs. f ?h \<le> f z"
      by blast
    show ?thesis
    proof (cases "f x \<le> f ?h")
      case True
      have hd_eq: "hd (sort_key f (x # xs)) = x"
        using True st by (metis insort_key.simps(2) list.sel(1) sort_key_simps(2))
      have "\<forall>z\<in>set xs. f x \<le> f z"
      proof
        fix z assume "z \<in> set xs"
        then have "z \<in> set ys \<or> z = ?h \<or> z \<in> set zs"
          using split by (metis Un_iff set_ConsD set_append)
        then show "f x \<le> f z"
          using True before after by fastforce
      qed
      then show ?thesis
        unfolding hd_eq by (intro exI [of _ "[]"] exI [of _ xs]) simp
    next
      case False
      have hd_eq: "hd (sort_key f (x # xs)) = ?h"
        using False st by (metis insort_key.simps(2) list.sel(1) sort_key_simps(2))
      have "x # xs = (x # ys) @ ?h # zs"
        using split by simp
      moreover have "\<forall>y\<in>set (x # ys). f ?h < f y"
        using False before by auto
      ultimately show ?thesis
        unfolding hd_eq using after by blast
    qed
  qed
qed


lemma sort_desc_Nil_iff: "sort_desc f xs = [] \<longleftrightarrow> xs = []"
  unfolding sort_desc_def by (metis length_0_conv length_sort)

lemma set_idle_agents:
  "set (idle_agents s) = {i. i < length (agents s) \<and> a_status (snd (agents s ! i)) = ''idle''}"
  by (auto simp: idle_agents_def)

lemma idle_agents_increasing: "sorted_wrt (<) (idle_agents s)"
  by (simp add: idle_agents_def sorted_wrt_filter)

lemma best_idle_agent:
  assumes "sort_desc (\<lambda>i. cores (snd (agents s ! i))) (idle_agents s) = b # rest"
  shows "b \<in> set (idle_agents s)"
    and "\<forall>j\<in>set (idle_agents s). cores (snd (agents s ! j)) \<le> cores (snd (agents s ! b))"
    and "\<forall>j\<in>set (idle_agents s). j < b \<longrightarrow> cores (snd (agents s ! j)) < cores (snd (agents s ! b))"
proof -
  let ?f = "\<lambda>i. - cores (snd (agents s ! i))"
  have ne: "idle_agents s \<noteq> []"
    using assms sort_desc_Nil_iff [of "\<lambda>i. cores (snd (agents s ! i))" "idle_agents s"] by auto
  have hd_b: "hd (sort_key ?f (idle_agents s)) = b"
    using assms by (simp add: sort_desc_def)
  from hd_sort_key_split [OF ne, of ?f] obtain ys zs where
    split: "idle_agents s = ys @ b # zs" and
    before: "\<forall>y\<in>set ys. ?f b < ?f y" and
    after: "\<forall>z\<in>set zs. ?f b \<le> ?f z"
    unfolding hd_b by blast
  show "b \<in> set (idle_agents s)"
    using split by simp
  show "\<forall>j\<in>set (idle_agents s). cores (snd (agents s ! j)) \<le> cores (snd (agents s ! b))"
    using split before after by fastforce
  have later: "\<forall>z\<in>set zs. b < z"
    using idle_agents_increasing [of s] unfolding split by (simp add: sorted_wrt_append)
  show "\<forall>j\<in>set (idle_agents s). j < b \<longrightarrow> cores (snd (agents s ! j)) < cores (snd (agents s ! b))"
  proof (intro ballI impI)
    fix j assume "j \<in> set (idle_agents s)" and "j < b"
    then have "j \<in> set ys"
      using later unfolding split by auto
    then show "cores (snd (agents s ! j)) < cores (snd (agents s ! b))"
      using before by auto
  qed
qed

text \<open>
  Claim C5. \<^verbatim>\<open>_reserve_agent\<close> returns \<open>None\<close> exactly when no registered agent is idle.
  Otherwise it returns an agent that was idle, whose core count is the largest among the
  idle agents, and every idle agent registered before it has strictly fewer cores (ties go
  to the agent registered first); in the new registry that agent is busy and its current
  task is the target of the task.
\<close>

theorem reserve_agent_selects_best_idle:
  "(fst (reserve_agent task s) = None \<longleftrightarrow>
      (\<forall>i<length (agents s). a_status (snd (agents s ! i)) \<noteq> ''idle''))
   \<and> (\<forall>b. fst (reserve_agent task s) = Some b \<longrightarrow>
         b < length (agents s)
         \<and> a_status (snd (agents s ! b)) = ''idle''
         \<and> (\<forall>j<length (agents s). a_status (snd (agents s ! j)) = ''idle'' \<longrightarrow>
               cores (snd (agents s ! j)) \<le> cores (snd (agents s ! b)))
         \<and> (\<forall>j<b. a_status (snd (agents s ! j)) = ''idle'' \<longrightarrow>
               cores (snd (agents s ! j)) < cores (snd (agents s ! b)))
         \<and> a_status (snd (agents (snd (reserve_agent task s)) ! b)) = ''busy''
         \<and> current_task (snd (agents (snd (reserve_agent task s)) ! b)) = Some (target task))"
proof (cases "sort_desc (\<lambda>i. cores (snd (agents s ! i))) (idle_agents s)")
  case Nil
  then have "idle_agents s = []"
    by (simp add: sort_desc_Nil_iff)
  then have "\<forall>i<length (agents s). a_status (snd (agents s ! i)) \<noteq> ''idle''"
    using set_idle_agents [of s] by auto
  then show ?thesis
    using Nil by (simp add: reserve_agent_def)
next
  case (Cons b rest)
  note best = best_idle_agent [OF Cons]
  have b_idle: "b < length (agents s)" "a_status (snd (agents s ! b)) = ''idle''"
    using best(1) by (simp_all add: set_idle_agents)
  have res: "fst (reserve_agent task s) = Some b"
    using Cons by (simp add: reserve_agent_def)
  have upd: "agents (snd (reserve_agent task s)) = (agents s)[b :=
                (fst (agents s ! b),
                 (snd (agents s ! b))\<lparr>a_status := ''busy'', current_task := Some (target task)\<rparr>)]"
    using Cons by (simp add: reserve_agent_def)
  have most: "\<forall>j<length (agents s). a_status (snd (agents s ! j)) = ''idle'' \<longrightarrow>
               cores (snd (agents s ! j)) \<le> cores (snd (agents s ! b))"
    using best(2) by (simp add: set_idle_agents)
  have first: "\<forall>j<b. a_status (snd (agents s ! j)) = ''idle'' \<longrightarrow>
               cores (snd (agents s ! j)) < cores (snd (agents s ! b))"
    using best(3) b_idle(1) by (simp add: set_idle_agents)
  have not_none: "\<not> (\<forall>i<length (agents s). a_status (snd (agents s ! i)) \<noteq> ''idle'')"
    using b_idle by blast
  show ?thesis
    unfolding res upd using b_idle most first not_none by simp
qed

text \<open>
  Claim C10. When \<^verbatim>\<open>_reserve_agent\<close> returns \<open>None\<close> the whole state is unchanged. When it
  returns an agent, the registry keeps its length, every other entry is unchanged, the
  reserved entry keeps its key and differs from the old agent in \<open>status\<close> and
  \<open>current_task\<close> only, and no other component of the state changes.
\<close>

theorem reserve_agent_frame:
  "(fst (reserve_agent task s) = None \<longrightarrow> snd (reserve_agent task s) = s)
   \<and> (\<forall>b. fst (reserve_agent task s) = Some b \<longrightarrow>
         length (agents (snd (reserve_agent task s))) = length (agents s)
         \<and> (\<forall>j<length (agents s). j \<noteq> b \<longrightarrow>
               agents (snd (reserve_agent task s)) ! j = agents s ! j)
         \<and> fst (agents (snd (reserve_agent task s)) ! b) = fst (agents s ! b)
         \<and> snd (agents (snd (reserve_agent task s)) ! b) =
             (snd (agents s ! b))\<lparr>a_status := ''busy'', current_task := Some (target task)\<rparr>
         \<and> snd (reserve_agent task s) = s\<lparr>agents := agents (snd (reserve_agent task s))\<rparr>)"
proof (cases "sort_desc (\<lambda>i. cores (snd (agents s ! i))) (idle_agents s)")
  case Nil
  then show ?thesis
    by (simp add: reserve_agent_def)
next
  case (Cons b rest)
  have "b < length (agents s)"
    using best_idle_agent(1) [OF Cons] by (simp add: set_idle_agents)
  then show ?thesis
    using Cons by (simp add: reserve_agent_def)
qed

theorem reserve_agent_selects_best_idle_witness:
  "fst (reserve_agent (example_task ''x'' 0 []) registry4) = Some 2
   \<and> a_status (snd (agents registry4 ! 2)) = ''idle''
   \<and> cores (snd (agents registry4 ! 3)) \<le> cores (snd (agents registry4 ! 2))
   \<and> cores (snd (agents registry4 ! 0)) < cores (snd (agents registry4 ! 2))
   \<and> a_status (snd (agents (snd (reserve_agent (example_task ''x'' 0 []) registry4)) ! 2)) = ''busy''
   \<and> current_task (snd (agents (snd (reserve_agent (example_task ''x'' 0 []) registry4)) ! 2))
       = Some ''x''"
proof -
  have r: "fst (reserve_agent (example_task ''x'' 0 []) registry4) = Some 2"
    by code_simp
  have t: "target (example_task ''x'' 0 []) = ''x''"
    by (simp add: example_task_def)
  have idle: "a_status (snd (agents registry4 ! 0)) = ''idle''"
    "a_status (snd (agents registry4 ! 3)) = ''idle''"
    "(3::nat) < length (agents registry4)"
    by (simp_all add: registry4_def example_state_def example_agent_def)
  from reserve_agent_selects_best_idle [of "example_task ''x'' 0 []" registry4] r
  have "a_status (snd (agents registry4 ! 2)) = ''idle''
     \<and> (\<forall>j<length (agents registry4). a_status (snd (agents registry4 ! j)) = ''idle'' \<longrightarrow>
           cores (snd (agents registry4 ! j)) \<le> cores (snd (agents registry4 ! 2)))
     \<and> (\<forall>j<2. a_status (snd (agents registry4 ! j)) = ''idle'' \<longrightarrow>
           cores (snd (agents registry4 ! j)) < cores (snd (agents registry4 ! 2)))
     \<and> a_status (snd (agents (snd (reserve_agent (example_task ''x'' 0 []) registry4)) ! 2)) = ''busy''
     \<and> current_task (snd (agents (snd (reserve_agent (example_task ''x'' 0 []) registry4)) ! 2))
         = Some ''x''"
    unfolding t by blast
  with r idle show ?thesis
    by (metis zero_less_numeral)
qed

theorem reserve_agent_frame_witness:
  "fst (reserve_agent (example_task ''x'' 0 []) registry4) = Some 2
   \<and> length (agents (snd (reserve_agent (example_task ''x'' 0 []) registry4))) = 4
   \<and> agents (snd (reserve_agent (example_task ''x'' 0 []) registry4)) ! 0 = agents registry4 ! 0
   \<and> agents (snd (reserve_agent (example_task ''x'' 0 []) registry4)) ! 1 = agents registry4 ! 1
   \<and> agents (snd (reserve_agent (example_task ''x'' 0 []) registry4)) ! 3 = agents registry4 ! 3
   \<and> fst (agents (snd (reserve_agent (example_task ''x'' 0 []) registry4)) ! 2) = ''n2''
   \<and> snd (agents (snd (reserve_agent (example_task ''x'' 0 []) registry4)) ! 2) =
       (example_agent ''n2'' ''h2'' 8 ''idle'' 0)\<lparr>a_status := ''busy'', current_task := Some ''x''\<rparr>"
proof -
  have r: "fst (reserve_agent (example_task ''x'' 0 []) registry4) = Some 2"
    by code_simp
  have t: "target (example_task ''x'' 0 []) = ''x''"
    by (simp add: example_task_def)
  have n: "length (agents registry4) = 4"
    "agents registry4 ! 2 = (''n2'', example_agent ''n2'' ''h2'' 8 ''idle'' 0)"
    by (simp_all add: registry4_def example_state_def)
  from reserve_agent_frame [of "example_task ''x'' 0 []" registry4] r t n
  show ?thesis by simp
qed

section \<open>Properties of the ready-task selection\<close>


lemma pop_ready_None: "pop_ready D xs = None \<longleftrightarrow> (\<forall>t\<in>set xs. \<not> deps_completed D t)"
  by (induction xs) (auto split: option.splits)

lemma pop_ready_Some:
  "pop_ready D xs = Some (t, rest) \<Longrightarrow>
     \<exists>ys zs. xs = ys @ t # zs \<and> rest = ys @ zs \<and> deps_completed D t
       \<and> (\<forall>y\<in>set ys. \<not> deps_completed D y)"
proof (induction xs arbitrary: rest)
  case Nil
  then show ?case by simp
next
  case (Cons x xs)
  show ?case
  proof (cases "deps_completed D x")
    case True
    with Cons.prems have "t = x" "rest = xs" by simp_all
    with True show ?thesis
      by (intro exI [of _ "[]"] exI [of _ xs]) simp
  next
    case False
    with Cons.prems obtain rest' where p: "pop_ready D xs = Some (t, rest')" and r: "rest = x # rest'"
      by (auto split: option.splits)
    from Cons.IH [OF p] obtain ys zs where
      "xs = ys @ t # zs" "rest' = ys @ zs" "deps_completed D t" "\<forall>y\<in>set ys. \<not> deps_completed D y"
      by blast
    with False r show ?thesis
      by (intro exI [of _ "x # ys"] exI [of _ zs]) simp
  qed
qed

lemma sort_desc_sorted: "sorted (map (\<lambda>x. - f x) (sort_desc f xs))"
  by (simp add: sort_desc_def)

lemma mset_sort_desc: "mset (sort_desc f xs) = mset xs"
  by (simp add: sort_desc_def)

lemma set_sort_desc: "set (sort_desc f xs) = set xs"
  by (simp add: sort_desc_def)

text \<open>
  Claim C1. \<^verbatim>\<open>_get_next_task\<close> returns \<open>None\<close> exactly when every pending task has a
  dependency that is not the target of a completed task (in particular when nothing is
  pending); the pending list is then only sorted. A task it returns was pending, each of
  its dependencies is the target of a completed task, no pending task with all its
  dependencies completed has a higher priority, and the new pending list is the sorted
  old one with that task taken out, nothing else in the state being changed.
\<close>

theorem get_next_task_selects_ready:
  "(fst (get_next_task s) = None \<longleftrightarrow>
      (\<forall>t\<in>set (build_tasks s). \<exists>d\<in>set (dependencies t). d \<notin> target ` set (completed_tasks s)))
   \<and> (fst (get_next_task s) = None \<longrightarrow>
         snd (get_next_task s) = s\<lparr>build_tasks := sort_desc priority (build_tasks s)\<rparr>)
   \<and> (\<forall>t. fst (get_next_task s) = Some t \<longrightarrow>
         t \<in> set (build_tasks s)
         \<and> (\<forall>d\<in>set (dependencies t). \<exists>c\<in>set (completed_tasks s). target c = d)
         \<and> (\<forall>u\<in>set (build_tasks s).
               (\<forall>d\<in>set (dependencies u). d \<in> target ` set (completed_tasks s)) \<longrightarrow>
               priority u \<le> priority t)
         \<and> mset (build_tasks s) = add_mset t (mset (build_tasks (snd (get_next_task s))))
         \<and> (\<exists>ys zs. sort_desc priority (build_tasks s) = ys @ t # zs
               \<and> build_tasks (snd (get_next_task s)) = ys @ zs)
         \<and> snd (get_next_task s) = s\<lparr>build_tasks := build_tasks (snd (get_next_task s))\<rparr>)"
proof -
  let ?D = "set (map target (completed_tasks s))"
  let ?L = "sort_desc priority (build_tasks s)"
  have ready_iff: "deps_completed ?D t \<longleftrightarrow> (\<forall>d\<in>set (dependencies t). d \<in> target ` set (completed_tasks s))" for t
    by (simp add: deps_completed_def list_all_iff)
  show ?thesis
  proof (cases "pop_ready ?D ?L")
    case None
    then have "\<forall>t\<in>set (build_tasks s). \<not> deps_completed ?D t"
      by (simp add: pop_ready_None set_sort_desc)
    then have blocked: "\<forall>t\<in>set (build_tasks s). \<exists>d\<in>set (dependencies t). d \<notin> target ` set (completed_tasks s)"
      unfolding ready_iff by blast
    have "get_next_task s = (None, s\<lparr>build_tasks := ?L\<rparr>)"
      using None by (simp add: get_next_task_def)
    with blocked show ?thesis by simp
  next
    case (Some p)
    obtain t rest where p: "p = (t, rest)" by (cases p)
    have res: "get_next_task s = (Some t, s\<lparr>build_tasks := rest\<rparr>)"
      using Some p by (simp add: get_next_task_def)
    from pop_ready_Some [OF Some [unfolded p]] obtain ys zs where
      split: "?L = ys @ t # zs" and rest: "rest = ys @ zs" and
      ready: "deps_completed ?D t" and before: "\<forall>y\<in>set ys. \<not> deps_completed ?D y"
      by blast
    have t_in: "t \<in> set (build_tasks s)"
      using split set_sort_desc [of priority "build_tasks s"] by (metis in_set_conv_decomp)
    have deps: "\<forall>d\<in>set (dependencies t). \<exists>c\<in>set (completed_tasks s). target c = d"
      using ready unfolding ready_iff by auto
    have after: "\<forall>z\<in>set zs. priority z \<le> priority t"
      using sort_desc_sorted [of priority "build_tasks s"] unfolding split
      by (simp add: sorted_append)
    have best: "\<forall>u\<in>set (build_tasks s).
               (\<forall>d\<in>set (dependencies u). d \<in> target ` set (completed_tasks s)) \<longrightarrow>
               priority u \<le> priority t"
    proof (intro ballI impI)
      fix u assume "u \<in> set (build_tasks s)"
        and "\<forall>d\<in>set (dependencies u). d \<in> target ` set (completed_tasks s)"
      then have "u \<in> set ?L" and u_ready: "deps_completed ?D u"
        using ready_iff [of u] by (simp_all only: set_sort_desc)
      then have "u \<in> set ys \<or> u = t \<or> u \<in> set zs"
        unfolding split by auto
      with u_ready before after show "priority u \<le> priority t"
        by auto
    qed
    have "mset (build_tasks s) = mset ?L"
      by (simp add: mset_sort_desc)
    then have removed: "mset (build_tasks s) = add_mset t (mset rest)"
      unfolding split rest by simp
    have not_blocked: "\<not> (\<forall>t\<in>set (build_tasks s). \<exists>d\<in>set (dependencies t). d \<notin> target ` set (completed_tasks s))"
      using t_in ready unfolding ready_iff by blast
    have pos: "\<exists>ys' zs'. ?L = ys' @ t # zs' \<and> rest = ys' @ zs'"
      using split rest by blast
    show ?thesis
      unfolding res using t_in deps best removed pos not_blocked by simp
  qed
qed

theorem get_next_task_selects_ready_witness:
  "fst (get_next_task pending3) = Some (example_task ''doc'' 3 [])
   \<and> example_task ''doc'' 3 [] \<in> set (build_tasks pending3)
   \<and> priority (example_task ''lib'' 1 []) \<le> priority (example_task ''doc'' 3 [])
   \<and> mset (build_tasks pending3) =
       add_mset (example_task ''doc'' 3 []) (mset (build_tasks (snd (get_next_task pending3))))"
proof -
  have r: "fst (get_next_task pending3) = Some (example_task ''doc'' 3 [])"
    by code_simp
  have lib: "example_task ''lib'' 1 [] \<in> set (build_tasks pending3)"
    "\<forall>d\<in>set (dependencies (example_task ''lib'' 1 [])). d \<in> target ` set (completed_tasks pending3)"
    by (simp_all add: pending3_def example_state_def example_task_def)
  from get_next_task_selects_ready [of pending3] r lib
  show ?thesis by blast
qed

section \<open>Properties of the topological sort\<close>



lemma visit_finished:
  "tg \<in> visited st \<Longrightarrow> tg \<notin> temp_visited st \<Longrightarrow> visit (Suc n) log_depth g tt tg st = Inr st"
  by simp

lemma visit_deps_step:
  assumes visit_ok: "\<And>tg st. tg \<in> dom tt \<Longrightarrow> dfs_inv tt st \<Longrightarrow>
      card (dom tt - temp_visited st) + log_depth < n \<Longrightarrow>
      \<exists>st'. visit n log_depth g tt tg st = Inr st' \<and> dfs_inv tt st' \<and> temp_visited st' = temp_visited st
        \<and> visited st \<subseteq> visited st' \<and> (tg \<in> visited st' \<or> tg \<in> temp_visited st)"
  shows "dfs_inv tt st \<Longrightarrow> card (dom tt - temp_visited st) + log_depth < n \<Longrightarrow>
      \<exists>st'. visit_deps n log_depth g tt deps st = Inr st' \<and> dfs_inv tt st'
        \<and> temp_visited st' = temp_visited st \<and> visited st \<subseteq> visited st'"
proof (induction deps arbitrary: st)
  case Nil
  then show ?case by simp
next
  case (Cons dep deps)
  show ?case
  proof (cases "tt dep")
    case None
    then show ?thesis
      using Cons.IH [OF Cons.prems] by simp
  next
    case (Some t)
    then have "dep \<in> dom tt" by blast
    from visit_ok [OF this Cons.prems] obtain st1 where
      v: "visit n log_depth g tt dep st = Inr st1" and inv1: "dfs_inv tt st1" and
      temp1: "temp_visited st1 = temp_visited st" and mono1: "visited st \<subseteq> visited st1"
      by blast
    from Cons.prems(2) temp1 have "card (dom tt - temp_visited st1) + log_depth < n" by simp
    from Cons.IH [OF inv1 this] obtain st2 where
      "visit_deps n log_depth g tt deps st1 = Inr st2" "dfs_inv tt st2"
      "temp_visited st2 = temp_visited st1" "visited st1 \<subseteq> visited st2"
      by blast
    with v temp1 mono1 Some show ?thesis by auto
  qed
qed

lemma visit_step:
  assumes wf: "\<And>k t. tt k = Some t \<Longrightarrow> target t = k" and fin: "finite (dom tt)"
  assumes deps_ok: "\<And>deps st. dfs_inv tt st \<Longrightarrow> card (dom tt - temp_visited st) + log_depth < m \<Longrightarrow>
      \<exists>st'. visit_deps m log_depth g tt deps st = Inr st' \<and> dfs_inv tt st'
        \<and> temp_visited st' = temp_visited st \<and> visited st \<subseteq> visited st'"
  assumes tg: "tg \<in> dom tt" and inv: "dfs_inv tt st"
    and fuel: "card (dom tt - temp_visited st) + log_depth < Suc m"
  shows "\<exists>st'. visit (Suc m) log_depth g tt tg st = Inr st' \<and> dfs_inv tt st'
        \<and> temp_visited st' = temp_visited st
        \<and> visited st \<subseteq> visited st' \<and> (tg \<in> visited st' \<or> tg \<in> temp_visited st)"
proof (cases "tg \<in> temp_visited st \<or> tg \<in> visited st")
  case True
  have "log_depth \<le> m" using fuel by simp
  with True show ?thesis using inv by auto
next
  case False
  then have fresh: "tg \<notin> temp_visited st" "tg \<notin> visited st" by simp_all
  let ?st1 = "st\<lparr>temp_visited := insert tg (temp_visited st)\<rparr>"
  have inv1: "dfs_inv tt ?st1"
    using inv fresh by (simp add: dfs_inv_def)
  have "dom tt - temp_visited ?st1 = (dom tt - temp_visited st) - {tg}"
    by auto
  moreover have in_rest: "tg \<in> dom tt - temp_visited st"
    using tg fresh by simp
  moreover have fin_rest: "finite (dom tt - temp_visited st)"
    using fin by simp
  ultimately have "card (dom tt - temp_visited ?st1) = card (dom tt - temp_visited st) - 1"
    by (simp add: card_Diff_singleton)
  moreover have "0 < card (dom tt - temp_visited st)"
    using in_rest fin_rest by (auto simp: card_gt_0_iff)
  ultimately have "card (dom tt - temp_visited ?st1) + log_depth < m"
    using fuel by simp
  from deps_ok [OF inv1 this, of "graph_get g tg"] obtain st2 where
    vd: "visit_deps m log_depth g tt (graph_get g tg) ?st1 = Inr st2" and inv2: "dfs_inv tt st2" and
    temp2: "temp_visited st2 = insert tg (temp_visited st)" and mono2: "visited st \<subseteq> visited st2"
    by auto
  obtain t where t: "tt tg = Some t" using tg by blast
  then have tt: "target t = tg" by (rule wf)
  let ?st3 = "st2\<lparr>temp_visited := temp_visited st2 - {tg}, visited := insert tg (visited st2),
                  result := result st2 @ [t]\<rparr>"
  have res: "visit (Suc m) log_depth g tt tg st = Inr ?st3"
    using fresh vd t by simp
  have not_done: "tg \<notin> visited st2"
    using inv2 temp2 by (auto simp: dfs_inv_def)
  have inv3: "dfs_inv tt ?st3"
    using inv2 not_done tt t tg by (auto simp: dfs_inv_def)
  have temp3: "temp_visited ?st3 = temp_visited st"
    using temp2 fresh by auto
  show ?thesis
    unfolding res using inv3 temp3 mono2 by auto
qed

lemma visit_total:
  assumes wf: "\<And>k t. tt k = Some t \<Longrightarrow> target t = k" and fin: "finite (dom tt)"
  shows "tg \<in> dom tt \<Longrightarrow> dfs_inv tt st \<Longrightarrow> card (dom tt - temp_visited st) + log_depth < n \<Longrightarrow>
      \<exists>st'. visit n log_depth g tt tg st = Inr st' \<and> dfs_inv tt st'
        \<and> temp_visited st' = temp_visited st
        \<and> visited st \<subseteq> visited st' \<and> (tg \<in> visited st' \<or> tg \<in> temp_visited st)"
proof (induction n arbitrary: tg st)
  case 0
  then show ?case by simp
next
  case (Suc m)
  have deps_ok: "\<exists>st'. visit_deps m log_depth g tt deps st = Inr st' \<and> dfs_inv tt st'
        \<and> temp_visited st' = temp_visited st \<and> visited st \<subseteq> visited st'"
    if "dfs_inv tt st" "card (dom tt - temp_visited st) + log_depth < m" for deps st
    using visit_deps_step [of tt log_depth m g st deps] Suc.IH that by blast
  show ?case
    by (rule visit_step [OF wf fin deps_ok Suc.prems])
qed

lemma visit_all_total:
  assumes wf: "\<And>k t. tt k = Some t \<Longrightarrow> target t = k" and fin: "finite (dom tt)"
    and fuel: "card (dom tt) + log_depth < n"
  shows "target ` set tasks \<subseteq> dom tt \<Longrightarrow> dfs_inv tt st \<Longrightarrow> temp_visited st = {} \<Longrightarrow>
      \<exists>st'. visit_all n log_depth g tt tasks st = Inr st' \<and> dfs_inv tt st' \<and> temp_visited st' = {}
        \<and> visited st \<union> target ` set tasks \<subseteq> visited st'"
proof (induction tasks arbitrary: st)
  case Nil
  then show ?case by simp
next
  case (Cons task tasks)
  from Cons.prems(1) have rest: "target ` set tasks \<subseteq> dom tt" and tg: "target task \<in> dom tt"
    by simp_all
  show ?case
  proof (cases "target task \<in> visited st")
    case True
    from Cons.IH [OF rest Cons.prems(2,3)] obtain st' where
      "visit_all n log_depth g tt tasks st = Inr st'" "dfs_inv tt st'" "temp_visited st' = {}"
      "visited st \<union> target ` set tasks \<subseteq> visited st'"
      by blast
    with True show ?thesis by auto
  next
    case False
    have "card (dom tt - temp_visited st) + log_depth < n"
      using fuel Cons.prems(3) by simp
    from visit_total [OF wf fin tg Cons.prems(2) this, of g] obtain st1 where
      v: "visit n log_depth g tt (target task) st = Inr st1" and inv1: "dfs_inv tt st1" and
      temp1: "temp_visited st1 = {}" and mono1: "visited st \<subseteq> visited st1" and
      done1: "target task \<in> visited st1"
      using Cons.prems(3) by auto
    from Cons.IH [OF rest inv1 temp1] obtain st' where
      "visit_all n log_depth g tt tasks st1 = Inr st'" "dfs_inv tt st'" "temp_visited st' = {}"
      "visited st1 \<union> target ` set tasks \<subseteq> visited st'"
      by blast
    with False v mono1 done1 show ?thesis by auto
  qed
qed

lemma target_to_task_Some:
  "target_to_task tasks k = Some t \<Longrightarrow> target t = k \<and> t \<in> set tasks"
  unfolding target_to_task_def by (auto dest!: map_of_SomeD)


lemma dom_target_to_task: "dom (target_to_task tasks) = target ` set tasks"
  unfolding target_to_task_def by (simp add: dom_map_of_conv_image_fst image_image)

lemma card_targets_le: "card (target ` set tasks) \<le> length tasks"
  by (metis card_image_le card_length le_trans List.finite_set)

lemma topological_sort_total:
  assumes "length (build_tasks s) + log_depth < depth"
  shows "\<exists>r. topological_sort depth log_depth s = Inr r
      \<and> distinct (map target r)
      \<and> target ` set r = target ` set (build_tasks s)
      \<and> (\<forall>t\<in>set r. target_to_task (build_tasks s) (target t) = Some t)"
proof -
  let ?tt = "target_to_task (build_tasks s)"
  let ?st0 = "\<lparr>visited = {}, temp_visited = {}, result = []\<rparr>"
  have wf: "\<And>k t. ?tt k = Some t \<Longrightarrow> target t = k"
    using target_to_task_Some by blast
  have fin: "finite (dom ?tt)"
    by (simp add: dom_target_to_task)
  have fuel: "card (dom ?tt) + log_depth < depth"
    using assms card_targets_le [of "build_tasks s"] by (simp add: dom_target_to_task)
  have sub: "target ` set (build_tasks s) \<subseteq> dom ?tt"
    by (simp add: dom_target_to_task)
  have inv0: "dfs_inv ?tt ?st0"
    by (simp add: dfs_inv_def)
  from visit_all_total [OF wf fin fuel sub inv0, of "build_graph s"] obtain st' where
    run: "visit_all depth log_depth (build_graph s) ?tt (build_tasks s) ?st0 = Inr st'" and
    inv: "dfs_inv ?tt st'" and all: "target ` set (build_tasks s) \<subseteq> visited st'"
    by auto
  have res: "topological_sort depth log_depth s = Inr (result st')"
    using run by (simp add: topological_sort_def)
  have "visited st' = target ` set (build_tasks s)"
    using inv all by (auto simp: dfs_inv_def dom_target_to_task)
  then show ?thesis
    unfolding res using inv by (simp add: dfs_inv_def list_all_iff)
qed















section \<open>Properties of the heartbeat monitor\<close>


lemma stale_test_number:
  "interval \<noteq> PyOther \<Longrightarrow> \<exists>b. stale_test fa now interval a = Inr b"
  by (cases interval) (simp_all add: stale_test_def)

lemma heartbeat_check_cases:
  assumes "stale_test fa now interval a = Inr b"
  shows "heartbeat_check fa now interval a =
           Inr (if b then (if host a = ''localhost'' then a\<lparr>last_seen := now\<rparr>
                           else a\<lparr>a_status := ''unavailable''\<rparr>)
                else a)"
  using assms by (simp add: heartbeat_check_def)

lemma heartbeat_loop_number:
  assumes "interval \<noteq> PyOther"
  shows "\<exists>es. heartbeat_loop fa now interval entries = Inr es \<and> length es = length entries
           \<and> (\<forall>i<length entries. fst (es ! i) = fst (entries ! i)
                 \<and> heartbeat_check fa now interval (snd (entries ! i)) = Inr (snd (es ! i)))"
proof (induction entries)
  case Nil
  then show ?case by simp
next
  case (Cons entry entries)
  from stale_test_number [OF assms] obtain b where
    "stale_test fa now interval (snd entry) = Inr b"
    by blast
  from heartbeat_check_cases [OF this] obtain a' where
    a': "heartbeat_check fa now interval (snd entry) = Inr a'"
    by blast
  from Cons.IH obtain es where
    es: "heartbeat_loop fa now interval entries = Inr es" "length es = length entries"
      "\<forall>i<length entries. fst (es ! i) = fst (entries ! i)
          \<and> heartbeat_check fa now interval (snd (entries ! i)) = Inr (snd (es ! i))"
    by blast
  have run: "heartbeat_loop fa now interval (entry # entries) = Inr ((fst entry, a') # es)"
    using a' es(1) by simp
  have "\<forall>i<length (entry # entries). fst (((fst entry, a') # es) ! i) = fst ((entry # entries) ! i)
          \<and> heartbeat_check fa now interval (snd ((entry # entries) ! i))
              = Inr (snd (((fst entry, a') # es) ! i))"
  proof (intro allI impI)
    fix i assume "i < length (entry # entries)"
    then show "fst (((fst entry, a') # es) ! i) = fst ((entry # entries) ! i)
          \<and> heartbeat_check fa now interval (snd ((entry # entries) ! i))
              = Inr (snd (((fst entry, a') # es) ! i))"
      using a' es(3) by (cases i) simp_all
  qed
  with run es(2) show ?case by simp
qed

lemma heartbeat_loop_other:
  "heartbeat_loop fa now PyOther entries = (if entries = [] then Inr [] else Inl TypeError)"
  by (cases entries) (simp_all add: heartbeat_check_def stale_test_def)

text \<open>
  Claim C7 as stated fails: a local agent that is within the window keeps its old
  \<open>last_seen\<close>. At time 100 the second agent of \<open>heartbeat4\<close>, a local one last seen at
  92, still has \<open>last_seen\<close> 92 after the iteration, while the first, last seen at 0, is
  refreshed.
\<close>

theorem heartbeat_refresh_counterexample:
  "host (snd (agents heartbeat4 ! 1)) = ''localhost''
   \<and> last_seen (snd (agents heartbeat4 ! 1)) = 92
   \<and> agent_heartbeat_monitor exact_arith 100 heartbeat4 =
       Inr (heartbeat4\<lparr>agents :=
         [(''n0'', example_agent ''n0'' ''localhost'' 4 ''idle'' 100),
          (''n1'', example_agent ''n1'' ''localhost'' 4 ''idle'' 92),
          (''n2'', example_agent ''n2'' ''h2'' 8 ''unavailable'' 50),
          (''n3'', example_agent ''n3'' ''h3'' 8 ''idle'' 90)]\<rparr>)"
  by (simp add: agent_heartbeat_monitor_def heartbeat_check_def stale_test_def heartbeat4_def
      example_state_def example_agent_def exact_arith_def)

text \<open>
  Claim C7, amended. With a heartbeat interval that is a number, one iteration of the
  heartbeat monitor at time \<open>now\<close> keeps the registry's keys and order and changes nothing
  else in the state. An agent for which the monitor's test holds gets \<open>last_seen = now\<close>
  when its host is \<open>localhost\<close>, and status \<open>unavailable\<close> otherwise, with no other
  field changed. An agent for which the test does not hold, local or not, is unchanged.
  The status of a local agent is never changed. The test is whether the float difference
  \<open>now - last_seen\<close> is greater than three times the interval, the exact product for an
  integer interval and the float product for a float one. With an interval that is not a
  number the iteration raises \<^verbatim>\<open>TypeError\<close> as soon as there is an agent, and changes
  nothing.
\<close>

theorem heartbeat_monitor_iteration:
  "(heartbeat_interval s \<noteq> PyOther \<longrightarrow>
      (\<exists>s'. agent_heartbeat_monitor fa now s = Inr s'
         \<and> length (agents s') = length (agents s)
         \<and> s' = s\<lparr>agents := agents s'\<rparr>
         \<and> (\<forall>i<length (agents s).
               fst (agents s' ! i) = fst (agents s ! i)
               \<and> (stale_test fa now (heartbeat_interval s) (snd (agents s ! i)) = Inr True
                    \<and> host (snd (agents s ! i)) = ''localhost'' \<longrightarrow>
                  snd (agents s' ! i) = (snd (agents s ! i))\<lparr>last_seen := now\<rparr>)
               \<and> (stale_test fa now (heartbeat_interval s) (snd (agents s ! i)) = Inr True
                    \<and> host (snd (agents s ! i)) \<noteq> ''localhost'' \<longrightarrow>
                  snd (agents s' ! i) = (snd (agents s ! i))\<lparr>a_status := ''unavailable''\<rparr>)
               \<and> (stale_test fa now (heartbeat_interval s) (snd (agents s ! i)) = Inr False \<longrightarrow>
                  snd (agents s' ! i) = snd (agents s ! i))
               \<and> (host (snd (agents s ! i)) = ''localhost'' \<longrightarrow>
                  a_status (snd (agents s' ! i)) = a_status (snd (agents s ! i))))))
   \<and> stale_test fa now (PyInt n) a = Inr (float_gt_int (fsub fa now (last_seen a)) (3 * n))
   \<and> stale_test fa now (PyFloat x) a =
       Inr (float_gt (fsub fa now (last_seen a)) (fmul fa x (Finite 3)))
   \<and> (heartbeat_interval s = PyOther \<longrightarrow>
        agent_heartbeat_monitor fa now s = (if agents s = [] then Inr s else Inl TypeError))"
proof (intro conjI impI)
  assume number: "heartbeat_interval s \<noteq> PyOther"
  from heartbeat_loop_number [OF number, of fa now "agents s"] obtain es where
    es: "heartbeat_loop fa now (heartbeat_interval s) (agents s) = Inr es"
      "length es = length (agents s)"
      "\<forall>i<length (agents s). fst (es ! i) = fst (agents s ! i)
          \<and> heartbeat_check fa now (heartbeat_interval s) (snd (agents s ! i)) = Inr (snd (es ! i))"
    by blast
  let ?s' = "s\<lparr>agents := es\<rparr>"
  have run: "agent_heartbeat_monitor fa now s = Inr ?s'"
    using es(1) by (simp add: agent_heartbeat_monitor_def)
  have each: "fst (es ! i) = fst (agents s ! i)
               \<and> (stale_test fa now (heartbeat_interval s) (snd (agents s ! i)) = Inr True
                    \<and> host (snd (agents s ! i)) = ''localhost'' \<longrightarrow>
                  snd (es ! i) = (snd (agents s ! i))\<lparr>last_seen := now\<rparr>)
               \<and> (stale_test fa now (heartbeat_interval s) (snd (agents s ! i)) = Inr True
                    \<and> host (snd (agents s ! i)) \<noteq> ''localhost'' \<longrightarrow>
                  snd (es ! i) = (snd (agents s ! i))\<lparr>a_status := ''unavailable''\<rparr>)
               \<and> (stale_test fa now (heartbeat_interval s) (snd (agents s ! i)) = Inr False \<longrightarrow>
                  snd (es ! i) = snd (agents s ! i))
               \<and> (host (snd (agents s ! i)) = ''localhost'' \<longrightarrow>
                  a_status (snd (es ! i)) = a_status (snd (agents s ! i)))"
    if i: "i < length (agents s)" for i
  proof -
    let ?a = "snd (agents s ! i)"
    from stale_test_number [OF number] obtain b where
      b: "stale_test fa now (heartbeat_interval s) ?a = Inr b"
      by blast
    from es(3) i have key: "fst (es ! i) = fst (agents s ! i)"
      and chk: "heartbeat_check fa now (heartbeat_interval s) ?a = Inr (snd (es ! i))"
      by simp_all
    from chk heartbeat_check_cases [OF b]
    have new: "snd (es ! i) = (if b then (if host ?a = ''localhost'' then ?a\<lparr>last_seen := now\<rparr>
                           else ?a\<lparr>a_status := ''unavailable''\<rparr>)
                else ?a)"
      by simp
    show ?thesis
      unfolding b new using key by simp
  qed
  show "\<exists>s'. agent_heartbeat_monitor fa now s = Inr s'
         \<and> length (agents s') = length (agents s)
         \<and> s' = s\<lparr>agents := agents s'\<rparr>
         \<and> (\<forall>i<length (agents s).
               fst (agents s' ! i) = fst (agents s ! i)
               \<and> (stale_test fa now (heartbeat_interval s) (snd (agents s ! i)) = Inr True
                    \<and> host (snd (agents s ! i)) = ''localhost'' \<longrightarrow>
                  snd (agents s' ! i) = (snd (agents s ! i))\<lparr>last_seen := now\<rparr>)
               \<and> (stale_test fa now (heartbeat_interval s) (snd (agents s ! i)) = Inr True
                    \<and> host (snd (agents s ! i)) \<noteq> ''localhost'' \<longrightarrow>
                  snd (agents s' ! i) = (snd (agents s ! i))\<lparr>a_status := ''unavailable''\<rparr>)
               \<and> (stale_test fa now (heartbeat_interval s) (snd (agents s ! i)) = Inr False \<longrightarrow>
                  snd (agents s' ! i) = snd (agents s ! i))
               \<and> (host (snd (agents s ! i)) = ''localhost'' \<longrightarrow>
                  a_status (snd (agents s' ! i)) = a_status (snd (agents s ! i))))"
  proof (intro exI [of _ ?s'] conjI)
    show "agent_heartbeat_monitor fa now s = Inr ?s'" by (rule run)
    show "length (agents ?s') = length (agents s)" using es(2) by simp
    show "?s' = s\<lparr>agents := agents ?s'\<rparr>" by simp
    show "\<forall>i<length (agents s).
               fst (agents ?s' ! i) = fst (agents s ! i)
               \<and> (stale_test fa now (heartbeat_interval s) (snd (agents s ! i)) = Inr True
                    \<and> host (snd (agents s ! i)) = ''localhost'' \<longrightarrow>
                  snd (agents ?s' ! i) = (snd (agents s ! i))\<lparr>last_seen := now\<rparr>)
               \<and> (stale_test fa now (heartbeat_interval s) (snd (agents s ! i)) = Inr True
                    \<and> host (snd (agents s ! i)) \<noteq> ''localhost'' \<longrightarrow>
                  snd (agents ?s' ! i) = (snd (agents s ! i))\<lparr>a_status := ''unavailable''\<rparr>)
               \<and> (stale_test fa now (heartbeat_interval s) (snd (agents s ! i)) = Inr False \<longrightarrow>
                  snd (agents ?s' ! i) = snd (agents s ! i))
               \<and> (host (snd (agents s ! i)) = ''localhost'' \<longrightarrow>
                  a_status (snd (agents ?s' ! i)) = a_status (snd (agents s ! i)))"
      using each by simp
  qed
next
  show "stale_test fa now (PyInt n) a = Inr (float_gt_int (fsub fa now (last_seen a)) (3 * n))"
    by (simp add: stale_test_def mult.commute)
next
  show "stale_test fa now (PyFloat x) a =
       Inr (float_gt (fsub fa now (last_seen a)) (fmul fa x (Finite 3)))"
    by (simp add: stale_test_def)
next
  assume "heartbeat_interval s = PyOther"
  then show "agent_heartbeat_monitor fa now s = (if agents s = [] then Inr s else Inl TypeError)"
    by (simp add: agent_heartbeat_monitor_def heartbeat_loop_other)
qed


theorem heartbeat_monitor_iteration_witness:
  "stale_test exact_arith 100 (PyInt 5) (example_agent ''n2'' ''h2'' 8 ''busy'' 50) = Inr True
   \<and> stale_test exact_arith 100 (PyInt 5) (example_agent ''n3'' ''h3'' 8 ''idle'' 90) = Inr False
   \<and> stale_test exact_arith 100 (PyFloat (Finite (5 / 2)))
         (example_agent ''n1'' ''localhost'' 4 ''idle'' 92) = Inr True
   \<and> stale_test exact_arith 100 (PyFloat NaN)
         (example_agent ''n0'' ''localhost'' 4 ''idle'' 0) = Inr False
   \<and> (\<exists>s'. agent_heartbeat_monitor exact_arith 100 heartbeat4 = Inr s'
         \<and> snd (agents s' ! 0) = (example_agent ''n0'' ''localhost'' 4 ''idle'' 0)\<lparr>last_seen := 100\<rparr>
         \<and> snd (agents s' ! 1) = example_agent ''n1'' ''localhost'' 4 ''idle'' 92
         \<and> snd (agents s' ! 2) = (example_agent ''n2'' ''h2'' 8 ''busy'' 50)\<lparr>a_status := ''unavailable''\<rparr>
         \<and> snd (agents s' ! 3) = example_agent ''n3'' ''h3'' 8 ''idle'' 90)"
proof -
  have a: "agents heartbeat4 ! 0 = (''n0'', example_agent ''n0'' ''localhost'' 4 ''idle'' 0)"
    "agents heartbeat4 ! 1 = (''n1'', example_agent ''n1'' ''localhost'' 4 ''idle'' 92)"
    "agents heartbeat4 ! 2 = (''n2'', example_agent ''n2'' ''h2'' 8 ''busy'' 50)"
    "agents heartbeat4 ! 3 = (''n3'', example_agent ''n3'' ''h3'' 8 ''idle'' 90)"
    by (simp_all add: heartbeat4_def example_state_def)
  have l: "length (agents heartbeat4) = 4" "heartbeat_interval heartbeat4 = PyInt 5"
    by (simp_all add: heartbeat4_def example_state_def)
  have h: "host (example_agent n h c st seen) = h" for n h c st seen
    by (simp add: example_agent_def)
  have t: "stale_test exact_arith 100 (PyInt 5) (example_agent n h c st seen) = Inr (100 - seen > 15)"
    for n h c st seen
    by (simp add: stale_test_def exact_arith_def example_agent_def)
  have number: "heartbeat_interval heartbeat4 \<noteq> PyOther"
    by (simp add: l)
  from heartbeat_monitor_iteration [of heartbeat4 exact_arith 100, THEN conjunct1, THEN mp, OF number]
  obtain s' where
    run: "agent_heartbeat_monitor exact_arith 100 heartbeat4 = Inr s'" and
    each: "\<forall>i<4.
               (stale_test exact_arith 100 (PyInt 5) (snd (agents heartbeat4 ! i)) = Inr True
                    \<and> host (snd (agents heartbeat4 ! i)) = ''localhost'' \<longrightarrow>
                  snd (agents s' ! i) = (snd (agents heartbeat4 ! i))\<lparr>last_seen := 100\<rparr>)
               \<and> (stale_test exact_arith 100 (PyInt 5) (snd (agents heartbeat4 ! i)) = Inr True
                    \<and> host (snd (agents heartbeat4 ! i)) \<noteq> ''localhost'' \<longrightarrow>
                  snd (agents s' ! i) = (snd (agents heartbeat4 ! i))\<lparr>a_status := ''unavailable''\<rparr>)
               \<and> (stale_test exact_arith 100 (PyInt 5) (snd (agents heartbeat4 ! i)) = Inr False \<longrightarrow>
                  snd (agents s' ! i) = snd (agents heartbeat4 ! i))"
    unfolding l by blast
  have a0: "snd (agents s' ! 0) = (example_agent ''n0'' ''localhost'' 4 ''idle'' 0)\<lparr>last_seen := 100\<rparr>"
    using each [THEN spec, of 0, unfolded a] by (simp add: t h)
  have a1: "snd (agents s' ! 1) = example_agent ''n1'' ''localhost'' 4 ''idle'' 92"
    using each [THEN spec, of 1, unfolded a] by (simp add: t h)
  have a2: "snd (agents s' ! 2) = (example_agent ''n2'' ''h2'' 8 ''busy'' 50)\<lparr>a_status := ''unavailable''\<rparr>"
    using each [THEN spec, of 2, unfolded a] by (simp add: t h)
  have a3: "snd (agents s' ! 3) = example_agent ''n3'' ''h3'' 8 ''idle'' 90"
    using each [THEN spec, of 3, unfolded a] by (simp add: t h)
  have "stale_test exact_arith 100 (PyInt 5) (example_agent ''n2'' ''h2'' 8 ''busy'' 50) = Inr True"
    and "stale_test exact_arith 100 (PyInt 5) (example_agent ''n3'' ''h3'' 8 ''idle'' 90) = Inr False"
    by (simp_all add: t)
  moreover have "stale_test exact_arith 100 (PyFloat (Finite (5 / 2)))
         (example_agent ''n1'' ''localhost'' 4 ''idle'' 92) = Inr True"
    and "stale_test exact_arith 100 (PyFloat NaN)
         (example_agent ''n0'' ''localhost'' 4 ''idle'' 0) = Inr False"
    by (simp_all add: stale_test_def exact_arith_def example_agent_def)
  ultimately show ?thesis
    using run a0 a1 a2 a3 by blast
qed

section \<open>Properties of the task execution\<close>



lemma execute_fails_iff:
  "\<not> fst (execute_task_on_agent t0 t1 outcome task ref agent) \<longleftrightarrow>
     host agent = ''localhost'' \<and> outcome \<noteq> Exited 0"
  by (cases outcome) (simp_all add: execute_task_on_agent_def Let_def)

lemma execute_failed_task:
  "\<not> fst (execute_task_on_agent t0 t1 outcome task ref agent) \<Longrightarrow>
     snd (execute_task_on_agent t0 t1 outcome task ref agent) =
       task\<lparr>start_time := Some t0, t_status := ''failed'', assigned_agent := Some ref,
            end_time := Some t1\<rparr>"
  by (cases outcome) (auto simp: execute_task_on_agent_def Let_def split: if_splits)

lemma execute_succeeded_task:
  "fst (execute_task_on_agent t0 t1 outcome task ref agent) \<Longrightarrow>
     snd (execute_task_on_agent t0 t1 outcome task ref agent) =
       task\<lparr>start_time := Some t0, t_status := ''completed'', assigned_agent := Some ref,
            end_time := Some t1\<rparr>"
  by (cases outcome) (auto simp: execute_task_on_agent_def Let_def split: if_splits)

lemma run_on_agent_eq:
  "run_on_agent t0 t1 outcome task ref s =
     release_and_resolve ref (snd (execute_task_on_agent t0 t1 outcome task ref (snd (agents s ! ref))))
       (fst (execute_task_on_agent t0 t1 outcome task ref (snd (agents s ! ref)))) s"
  by (simp add: run_on_agent_def case_prod_unfold)

lemma release_agents:
  "agents (release_and_resolve ref task success s) =
     (agents s)[ref := (fst (agents s ! ref),
        (snd (agents s ! ref))\<lparr>a_status := ''idle'', current_task := None\<rparr>)]"
  by (simp add: release_and_resolve_def Let_def)

lemma release_failure:
  "build_tasks (release_and_resolve ref task False s) =
     build_tasks s @ [task\<lparr>priority := priority task div 2\<rparr>]"
  "completed_tasks (release_and_resolve ref task False s) = completed_tasks s"
  by (simp_all add: release_and_resolve_def Let_def)

lemma release_success:
  "completed_tasks (release_and_resolve ref task True s) = completed_tasks s @ [task]"
  "build_tasks (release_and_resolve ref task True s) = build_tasks s"
  by (simp_all add: release_and_resolve_def Let_def)


text \<open>
  Claim C4 as stated fails: the status of the task that is put back is \<open>failed\<close>, not
  \<open>pending\<close>. One iteration of the executor on \<open>local1\<close> with a build that exits with
  status 1 leaves the task in the pending list with priority 3 and status \<open>failed\<close>.
\<close>

theorem failed_status_counterexample:
  "build_tasks (task_executor 10 11 (Exited 1) local1) =
     [(example_task ''x'' 7 [])\<lparr>priority := 3, t_status := ''failed'', assigned_agent := Some 0,
         start_time := Some 10, end_time := Some 11\<rparr>]
   \<and> t_status (last (build_tasks (task_executor 10 11 (Exited 1) local1))) \<noteq> ''pending''"
  by code_simp

text \<open>
  Claim C4, amended. Running a task on a reserved agent releases the agent whatever the
  outcome: its status is \<open>idle\<close>, its current task is cleared, and no other agent
  changes. When the execution fails, the task is appended to the pending list with its
  priority halved (rounding down) and with the status \<open>failed\<close> that the execution gave
  it, and the completed list is unchanged. When the task that was put back fails again,
  its priority is the original one halved twice.
\<close>

theorem failed_task_requeued:
  "(ref < length (agents s) \<longrightarrow>
      length (agents (run_on_agent start finish outcome task ref s)) = length (agents s)
      \<and> agents (run_on_agent start finish outcome task ref s) ! ref =
          (fst (agents s ! ref), (snd (agents s ! ref))\<lparr>a_status := ''idle'', current_task := None\<rparr>)
      \<and> (\<forall>j<length (agents s). j \<noteq> ref \<longrightarrow>
            agents (run_on_agent start finish outcome task ref s) ! j = agents s ! j))
   \<and> (\<not> fst (execute_task_on_agent start finish outcome task ref (snd (agents s ! ref))) \<longrightarrow>
        build_tasks (run_on_agent start finish outcome task ref s) =
          build_tasks s @ [task\<lparr>priority := priority task div 2, t_status := ''failed'',
             assigned_agent := Some ref, start_time := Some start, end_time := Some finish\<rparr>]
        \<and> completed_tasks (run_on_agent start finish outcome task ref s) = completed_tasks s)
   \<and> (\<not> fst (execute_task_on_agent start finish outcome task ref (snd (agents s ! ref)))
      \<and> \<not> fst (execute_task_on_agent start' finish' outcome'
                 (last (build_tasks (run_on_agent start finish outcome task ref s))) ref'
                 (snd (agents (run_on_agent start finish outcome task ref s) ! ref'))) \<longrightarrow>
        priority (last (build_tasks (run_on_agent start' finish' outcome'
                 (last (build_tasks (run_on_agent start finish outcome task ref s))) ref'
                 (run_on_agent start finish outcome task ref s))))
          = priority task div 2 div 2)"
proof (intro conjI impI)
  assume "ref < length (agents s)"
  then show "length (agents (run_on_agent start finish outcome task ref s)) = length (agents s)"
    and "agents (run_on_agent start finish outcome task ref s) ! ref =
          (fst (agents s ! ref), (snd (agents s ! ref))\<lparr>a_status := ''idle'', current_task := None\<rparr>)"
    and "\<forall>j<length (agents s). j \<noteq> ref \<longrightarrow>
            agents (run_on_agent start finish outcome task ref s) ! j = agents s ! j"
    by (simp_all add: run_on_agent_eq release_agents)
next
  assume f: "\<not> fst (execute_task_on_agent start finish outcome task ref (snd (agents s ! ref)))"
  then have run: "run_on_agent start finish outcome task ref s =
      release_and_resolve ref (task\<lparr>start_time := Some start, t_status := ''failed'',
         assigned_agent := Some ref, end_time := Some finish\<rparr>) False s"
    using execute_failed_task [OF f] by (simp add: run_on_agent_eq)
  show "build_tasks (run_on_agent start finish outcome task ref s) =
          build_tasks s @ [task\<lparr>priority := priority task div 2, t_status := ''failed'',
             assigned_agent := Some ref, start_time := Some start, end_time := Some finish\<rparr>]"
    unfolding run by (simp add: release_failure)
  show "completed_tasks (run_on_agent start finish outcome task ref s) = completed_tasks s"
    unfolding run by (simp add: release_failure)
next
  let ?s1 = "run_on_agent start finish outcome task ref s"
  let ?task1 = "last (build_tasks ?s1)"
  assume "\<not> fst (execute_task_on_agent start finish outcome task ref (snd (agents s ! ref)))
      \<and> \<not> fst (execute_task_on_agent start' finish' outcome' ?task1 ref' (snd (agents ?s1 ! ref')))"
  then have f1: "\<not> fst (execute_task_on_agent start finish outcome task ref (snd (agents s ! ref)))"
    and f2: "\<not> fst (execute_task_on_agent start' finish' outcome' ?task1 ref' (snd (agents ?s1 ! ref')))"
    by simp_all
  have run1: "?s1 = release_and_resolve ref (task\<lparr>start_time := Some start, t_status := ''failed'',
         assigned_agent := Some ref, end_time := Some finish\<rparr>) False s"
    using execute_failed_task [OF f1] f1 by (simp add: run_on_agent_eq)
  have p1: "priority ?task1 = priority task div 2"
    unfolding run1 by (simp add: release_failure)
  have run2: "run_on_agent start' finish' outcome' ?task1 ref' ?s1 =
      release_and_resolve ref' (?task1\<lparr>start_time := Some start', t_status := ''failed'',
         assigned_agent := Some ref', end_time := Some finish'\<rparr>) False ?s1"
    using execute_failed_task [OF f2] f2 by (simp add: run_on_agent_eq [of start' finish' outcome' ?task1 ref' ?s1])
  show "priority (last (build_tasks (run_on_agent start' finish' outcome' ?task1 ref' ?s1)))
          = priority task div 2 div 2"
    unfolding run2 by (simp add: release_failure p1)
qed


theorem failed_task_requeued_witness:
  "\<not> fst (execute_task_on_agent 10 11 (Exited 1) (example_task ''x'' 7 []) 0 (snd (agents busy1 ! 0)))
   \<and> build_tasks (run_on_agent 10 11 (Exited 1) (example_task ''x'' 7 []) 0 busy1) =
       [(example_task ''x'' 7 [])\<lparr>priority := 3, t_status := ''failed'',
           assigned_agent := Some 0, start_time := Some 10, end_time := Some 11\<rparr>]
   \<and> agents (run_on_agent 10 11 (Exited 1) (example_task ''x'' 7 []) 0 busy1) ! 0 =
       (''n0'', example_agent ''n0'' ''localhost'' 4 ''idle'' 0)
   \<and> priority (last (build_tasks (run_on_agent 20 21 ExecRaised
         (last (build_tasks (run_on_agent 10 11 (Exited 1) (example_task ''x'' 7 []) 0 busy1))) 0
         (run_on_agent 10 11 (Exited 1) (example_task ''x'' 7 []) 0 busy1)))) = 1"
proof -
  have f1: "\<not> fst (execute_task_on_agent 10 11 (Exited 1) (example_task ''x'' 7 []) 0
                    (snd (agents busy1 ! 0)))"
    by code_simp
  have f2: "\<not> fst (execute_task_on_agent 20 21 ExecRaised
         (last (build_tasks (run_on_agent 10 11 (Exited 1) (example_task ''x'' 7 []) 0 busy1))) 0
         (snd (agents (run_on_agent 10 11 (Exited 1) (example_task ''x'' 7 []) 0 busy1) ! 0)))"
    by code_simp
  have c: "(0::nat) < length (agents busy1)" "build_tasks busy1 = []"
    "agents busy1 ! 0 = (''n0'', (example_agent ''n0'' ''localhost'' 4 ''busy'' 0)\<lparr>current_task := Some ''x''\<rparr>)"
    "priority (example_task ''x'' 7 []) = 7"
    by (simp_all add: busy1_def example_state_def example_task_def)
  have a: "(example_agent ''n0'' ''localhost'' 4 ''busy'' 0)\<lparr>current_task := Some ''x'',
              a_status := ''idle'', current_task := None\<rparr> = example_agent ''n0'' ''localhost'' 4 ''idle'' 0"
    by (simp add: example_agent_def)
  note step = failed_task_requeued [where ref = 0 and s = busy1 and start = 10 and finish = 11
      and outcome = "Exited 1" and task = "example_task ''x'' 7 []" and start' = 20 and finish' = 21
      and outcome' = ExecRaised and ref' = 0]
  have requeued: "build_tasks (run_on_agent 10 11 (Exited 1) (example_task ''x'' 7 []) 0 busy1) =
       [(example_task ''x'' 7 [])\<lparr>priority := 3, t_status := ''failed'',
           assigned_agent := Some 0, start_time := Some 10, end_time := Some 11\<rparr>]"
    using step f1 c by simp
  have released: "agents (run_on_agent 10 11 (Exited 1) (example_task ''x'' 7 []) 0 busy1) ! 0 =
       (''n0'', example_agent ''n0'' ''localhost'' 4 ''idle'' 0)"
    using step c a by simp
  have twice: "priority (last (build_tasks (run_on_agent 20 21 ExecRaised
         (last (build_tasks (run_on_agent 10 11 (Exited 1) (example_task ''x'' 7 []) 0 busy1))) 0
         (run_on_agent 10 11 (Exited 1) (example_task ''x'' 7 []) 0 busy1)))) = 1"
    using step [THEN conjunct2, THEN conjunct2, THEN mp, OF conjI [OF f1 f2]]
    by (simp only: c(4))
  from f1 requeued released twice show ?thesis
    by blast
qed

section \<open>Dependencies on unknown targets\<close>

text \<open>
  A task with a dependency that is not the target of a completed task is not selected,
  whether some task produces that dependency or not.
\<close>

lemma blocked_task_not_selected:
  assumes "d \<in> set (dependencies t)" and "d \<notin> target ` set (completed_tasks s)"
  shows "fst (get_next_task s) \<noteq> Some t"
proof
  assume sel: "fst (get_next_task s) = Some t"
  let ?D = "set (map target (completed_tasks s))"
  from sel obtain rest where "pop_ready ?D (sort_desc priority (build_tasks s)) = Some (t, rest)"
    by (auto simp: get_next_task_def Let_def split: option.splits)
  from pop_ready_Some [OF this] have "deps_completed ?D t"
    by blast
  with assms show False
    by (simp add: deps_completed_def list_all_iff)
qed

text \<open>
  Claim C2 does not hold of \<^verbatim>\<open>_get_next_task\<close>. The topological sort skips the
  dependency \<open>ext\<close>, which no task produces, and orders \<open>lib\<close> before \<open>app\<close>. The
  selection does not skip it: with \<open>lib\<close> completed, \<open>app\<close> is still not selected, and
  the pending list keeps it. (The sort is run with room for 1000 nested calls, of which a
  logging call takes 8.)
\<close>

theorem unknown_dependency_blocks_selection:
  "topological_sort 1000 8 unknown_dep =
     Inr [example_task ''lib'' 0 [], example_task ''app'' 0 [''lib'', ''ext'']]
   \<and> fst (get_next_task unknown_dep_lib_done) = None
   \<and> build_tasks (snd (get_next_task unknown_dep_lib_done)) =
       [example_task ''app'' 0 [''lib'', ''ext'']]"
  by code_simp

section \<open>Priorities assigned by the build plan\<close>

text \<open>
  When the topological sort returns, \<^verbatim>\<open>optimize_build_plan\<close> gives the task at
  position \<open>i\<close> of the topological order the priority \<open>i\<close> plus ten times the number of
  graph entries that list its target, and sorts by it. For a target that is not among its
  own dependencies that number is the number of other targets whose entry lists it.
\<close>

lemma length_assign_priorities: "length (assign_priorities g r) = length r"
  by (simp add: assign_priorities_def)

lemma nth_assign_priorities:
  "i < length r \<Longrightarrow>
     assign_priorities g r ! i = (r ! i)\<lparr>priority := int i + 10 * dependents_count g (target (r ! i))\<rparr>"
  by (simp add: assign_priorities_def nth_enumerate_eq)

lemma optimize_build_plan_priorities:
  assumes "length (build_tasks s) + log_depth < depth"
  shows "\<exists>r. topological_sort depth log_depth s = Inr r
     \<and> optimize_build_plan depth log_depth s =
         Inr (s\<lparr>build_tasks := sort_desc priority (assign_priorities (build_graph s) r)\<rparr>)
     \<and> (\<forall>i<length r. assign_priorities (build_graph s) r ! i =
           (r ! i)\<lparr>priority := int i + 10 * dependents_count (build_graph s) (target (r ! i))\<rparr>)"
proof -
  from topological_sort_total [OF assms] obtain r where
    "topological_sort depth log_depth s = Inr r"
    by blast
  then show ?thesis
    by (simp add: optimize_build_plan_def nth_assign_priorities)
qed

lemma dependents_count_without_self:
  assumes "distinct (map fst g)" and "tg \<notin> set (graph_get g tg)"
  shows "dependents_count g tg =
           int (card {k \<in> fst ` set g. k \<noteq> tg \<and> tg \<in> set (graph_get g k)})"
proof -
  have len: "length (filter (\<lambda>t. tg \<in> set t) (map snd g)) = length (filter (\<lambda>p. tg \<in> set (snd p)) g)"
    by (simp add: filter_map length_filter_map comp_def)
  have dg: "distinct g"
    using assms(1) by (simp add: distinct_map)
  have get: "graph_get g (fst p) = snd p" if "p \<in> set g" for p
  proof -
    obtain k v where kv: "p = (k, v)"
      by (cases p)
    with that assms(1) have "map_of g k = Some v"
      by simp
    with kv show ?thesis
      by (simp add: graph_get_def)
  qed
  have "card {k \<in> fst ` set g. k \<noteq> tg \<and> tg \<in> set (graph_get g k)} =
        card (fst ` {p \<in> set g. tg \<in> set (snd p)})"
  proof (rule arg_cong [where f = card], rule set_eqI, rule iffI)
    fix k assume "k \<in> {k \<in> fst ` set g. k \<noteq> tg \<and> tg \<in> set (graph_get g k)}"
    then obtain p where "p \<in> set g" "k = fst p" "tg \<in> set (graph_get g k)"
      by auto
    then have "p \<in> {p \<in> set g. tg \<in> set (snd p)}"
      using get [of p] by simp
    with \<open>k = fst p\<close> show "k \<in> fst ` {p \<in> set g. tg \<in> set (snd p)}"
      by (rule image_eqI)
  next
    fix k assume "k \<in> fst ` {p \<in> set g. tg \<in> set (snd p)}"
    then obtain p where p: "p \<in> set g" "k = fst p" "tg \<in> set (snd p)"
      by auto
    then have "tg \<in> set (graph_get g k)"
      using get by simp
    moreover have "k \<noteq> tg"
      using calculation assms(2) by blast
    ultimately show "k \<in> {k \<in> fst ` set g. k \<noteq> tg \<and> tg \<in> set (graph_get g k)}"
      using p by auto
  qed
  also have "\<dots> = card {p \<in> set g. tg \<in> set (snd p)}"
  proof (rule card_image)
    have "inj_on fst (set g)"
      using assms(1) by (simp add: distinct_map)
    then show "inj_on fst {p \<in> set g. tg \<in> set (snd p)}"
      by (rule inj_on_subset) blast
  qed
  also have "\<dots> = card (set (filter (\<lambda>p. tg \<in> set (snd p)) g))"
    by simp
  also have "\<dots> = length (filter (\<lambda>p. tg \<in> set (snd p)) g)"
    using dg by (intro distinct_card) simp
  finally show ?thesis
    unfolding dependents_count_def len by simp
qed

text \<open>
  Claim C3 does not hold of \<^verbatim>\<open>optimize_build_plan\<close> for a task that lists its own
  target as a dependency: the count of dependents includes the task itself. The only task
  of \<open>self_dep\<close> has rank 0 and no other task depends on it, yet its priority becomes 10.
  (The plan is computed with room for 1000 nested calls, of which a logging call takes 8.)
\<close>

theorem self_dependency_counted:
  "optimize_build_plan 1000 8 self_dep =
     Inr (self_dep\<lparr>build_tasks := [(example_task ''A'' 0 [''A''])\<lparr>priority := 10\<rparr>]\<rparr>)
   \<and> dependents_count (build_graph self_dep) ''A'' = 1"
  by code_simp

section \<open>Properties of the ingestion\<close>


lemma query_targets_answered:
  "\<forall>tg\<in>set tgs. q tg \<noteq> OtherException \<Longrightarrow>
     query_targets q build_dir tgs s =
       (True, s\<lparr>build_tasks := build_tasks s @
                      map (\<lambda>(tg, deps). new_task tg build_dir deps) (answered q tgs),
                  build_graph := fold (\<lambda>(tg, deps). dict_set tg deps) (answered q tgs)
                      (build_graph s)\<rparr>)"
proof (induction tgs arbitrary: s)
  case Nil
  then show ?case by (simp add: answered_def)
next
  case (Cons tg tgs)
  then have rest: "\<forall>tg\<in>set tgs. q tg \<noteq> OtherException" and this_one: "q tg \<noteq> OtherException"
    by simp_all
  show ?case
  proof (cases "q tg")
    case (Output out)
    have a: "answered q (tg # tgs) = (tg, parse_deps out) # answered q tgs"
      using Output by (simp add: answered_def)
    show ?thesis
      unfolding a using Output Cons.IH [OF rest] by simp
  next
    case CalledProcessError
    have a: "answered q (tg # tgs) = answered q tgs"
      using CalledProcessError by (simp add: answered_def)
    show ?thesis
      unfolding a using CalledProcessError Cons.IH [OF rest] by simp
  next
    case OtherException
    with this_one show ?thesis by simp
  qed
qed

lemma answered_all_failed:
  "\<forall>tg\<in>set tgs. q tg = CalledProcessError \<Longrightarrow> answered q tgs = []"
  by (induction tgs) (simp_all add: answered_def)

lemma prepare_exists:
  "path_exists os (files s) (path_join build_dir ''build.ninja'') \<Longrightarrow>
     prepare_build_file os build_dir s = Inr s"
  by (simp add: prepare_build_file_def)

lemma prepare_written:
  assumes "\<not> path_exists os (files s) (path_join build_dir ''build.ninja'')"
    and "makedirs os (files s) build_dir = Succeeds"
    and "write_file os (files s) (path_join build_dir ''build.ninja'')
           (minimal_build_ninja build_dir) = Succeeds"
    and "write_file os
           (dict_set (path_join build_dir ''build.ninja'') (minimal_build_ninja build_dir) (files s))
           ''placeholder.cpp'' placeholder_cpp = Succeeds"
  shows "prepare_build_file os build_dir s =
           Inr (s\<lparr>files := dict_set ''placeholder.cpp'' placeholder_cpp
                  (dict_set (path_join build_dir ''build.ninja'') (minimal_build_ninja build_dir)
                     (files s))\<rparr>)"
  using assms by (simp add: prepare_build_file_def Let_def)

lemma prepare_raises:
  assumes "prepare_build_file os build_dir s = Inl (e, s')"
  shows "build_tasks s' = build_tasks s" and "build_graph s' = build_graph s"
    and "\<not> path_exists os (files s) (path_join build_dir ''build.ninja'')"
  using assms
  by (auto simp: prepare_build_file_def Let_def split: if_splits os_outcome.splits)

lemma prepare_frame:
  assumes "prepare_build_file os build_dir s = Inr s1"
  shows "build_tasks s1 = build_tasks s" and "build_graph s1 = build_graph s"
  using assms
  by (auto simp: prepare_build_file_def Let_def split: if_splits os_outcome.splits)

lemma prepare_makedirs_raises:
  assumes "\<not> path_exists os (files s) (path_join build_dir ''build.ninja'')"
    and "makedirs os (files s) build_dir = Raises e fs"
  shows "prepare_build_file os build_dir s = Inl (e, s\<lparr>files := fs\<rparr>)"
  using assms by (simp add: prepare_build_file_def Let_def)

lemma prepare_write_raises:
  assumes "\<not> path_exists os (files s) (path_join build_dir ''build.ninja'')"
    and "makedirs os (files s) build_dir = Succeeds"
    and "write_file os (files s) (path_join build_dir ''build.ninja'')
           (minimal_build_ninja build_dir) = Raises e fs"
  shows "prepare_build_file os build_dir s = Inl (e, s\<lparr>files := fs\<rparr>)"
  using assms by (simp add: prepare_build_file_def Let_def)

lemma prepare_second_write_raises:
  assumes "\<not> path_exists os (files s) (path_join build_dir ''build.ninja'')"
    and "makedirs os (files s) build_dir = Succeeds"
    and "write_file os (files s) (path_join build_dir ''build.ninja'')
           (minimal_build_ninja build_dir) = Succeeds"
    and "write_file os
           (dict_set (path_join build_dir ''build.ninja'') (minimal_build_ninja build_dir) (files s))
           ''placeholder.cpp'' placeholder_cpp = Raises e fs"
  shows "prepare_build_file os build_dir s = Inl (e, s\<lparr>files := fs\<rparr>)"
  using assms by (simp add: prepare_build_file_def Let_def)

lemma parse_after_raise:
  "prepare_build_file os build_dir s = Inl (e, s') \<Longrightarrow>
     parse_build_tasks os tool build_dir s = (Inl e, s')"
  by (simp add: parse_build_tasks_def)

lemma parse_after_prepare:
  "prepare_build_file os build_dir s = Inr s1 \<Longrightarrow>
     parse_build_tasks os tool build_dir s =
       (Inr (fst (list_and_query tool build_dir s1)), snd (list_and_query tool build_dir s1))"
  by (simp add: parse_build_tasks_def case_prod_unfold)

lemma list_and_query_no_listing:
  "\<forall>out. targets_all tool (files s) build_dir \<noteq> Output out \<Longrightarrow>
     list_and_query tool build_dir s = (False, s)"
  by (simp add: list_and_query_def split: cmd_outcome.splits)

lemma list_and_query_listing:
  "targets_all tool (files s) build_dir = Output out \<Longrightarrow>
     list_and_query tool build_dir s =
       query_targets (query tool (files s) build_dir) build_dir (parse_targets out) s"
  by (simp add: list_and_query_def)


text \<open>
  Claim C6 as stated fails twice. With a \<^verbatim>\<open>build.ninja\<close> in place and a tool whose
  every query exits with a non-zero status, \<^verbatim>\<open>parse_build_tasks\<close> returns success with
  an empty task list. With no \<^verbatim>\<open>build.ninja\<close> and a tool that fails every command, it
  writes a build file and a source file of its own into a file system that was empty.
\<close>

theorem parse_build_tasks_fabricates_counterexample:
  "parse_build_tasks plain_os queries_fail ''build'' with_ninja_file = (Inr True, with_ninja_file)
   \<and> build_tasks with_ninja_file = []
   \<and> files empty_state = []
   \<and> parse_build_tasks plain_os no_tool ''build'' empty_state =
       (Inr False,
        empty_state\<lparr>files := [(''build/build.ninja'', minimal_build_ninja ''build''),
                              (''placeholder.cpp'', placeholder_cpp)]\<rparr>)"
  by (simp add: parse_build_tasks_def prepare_build_file_def list_and_query_def plain_os_def
      queries_fail_def no_tool_def with_ninja_file_def empty_state_def example_state_def
      path_join_def Let_def parse_targets_def unlines_def splitlines_def py_linebreaks_def
      match_len_def startswith_def strip_def py_spaces_def)

text \<open>
  Claim C6, amended. When \<^verbatim>\<open>build.ninja\<close> exists in the build directory,
  \<^verbatim>\<open>parse_build_tasks\<close> writes nothing. When it does not exist, the build directory is
  created and a minimal \<^verbatim>\<open>build.ninja\<close> and a placeholder source file are written; if
  one of these three calls of the operating system raises (as \<^verbatim>\<open>os.makedirs\<close> does for
  an empty build directory), that exception leaves \<^verbatim>\<open>parse_build_tasks\<close>, which
  returns no result, and the task list and the build graph are unchanged. Otherwise: when the
  listing command yields no output (it exits with a non-zero status or raises), the result
  is failure and the task list and the build graph are unchanged. When the listing yields
  output and no query raises anything but \<^verbatim>\<open>CalledProcessError\<close>, the result is
  success: the targets whose query produced output are appended as tasks and entered in
  the graph, and a target whose query exits with a non-zero status is left out. In
  particular, when every query exits with a non-zero status the result is success with
  the task list and the graph unchanged.
\<close>

theorem parse_build_tasks_outcomes:
  "(path_exists os (files s) (path_join build_dir ''build.ninja'') \<longrightarrow>
      prepare_build_file os build_dir s = Inr s)
   \<and> (\<not> path_exists os (files s) (path_join build_dir ''build.ninja'')
        \<and> makedirs os (files s) build_dir = Succeeds
        \<and> write_file os (files s) (path_join build_dir ''build.ninja'')
             (minimal_build_ninja build_dir) = Succeeds
        \<and> write_file os
             (dict_set (path_join build_dir ''build.ninja'') (minimal_build_ninja build_dir) (files s))
             ''placeholder.cpp'' placeholder_cpp = Succeeds \<longrightarrow>
      prepare_build_file os build_dir s =
        Inr (s\<lparr>files := dict_set ''placeholder.cpp'' placeholder_cpp
               (dict_set (path_join build_dir ''build.ninja'') (minimal_build_ninja build_dir)
                  (files s))\<rparr>))
   \<and> (\<not> path_exists os (files s) (path_join build_dir ''build.ninja'')
        \<and> (makedirs os (files s) build_dir = Raises e fs
            \<or> makedirs os (files s) build_dir = Succeeds
              \<and> (write_file os (files s) (path_join build_dir ''build.ninja'')
                     (minimal_build_ninja build_dir) = Raises e fs
                  \<or> write_file os (files s) (path_join build_dir ''build.ninja'')
                       (minimal_build_ninja build_dir) = Succeeds
                    \<and> write_file os
                         (dict_set (path_join build_dir ''build.ninja'')
                            (minimal_build_ninja build_dir) (files s))
                         ''placeholder.cpp'' placeholder_cpp = Raises e fs)) \<longrightarrow>
      parse_build_tasks os tool build_dir s = (Inl e, s\<lparr>files := fs\<rparr>))
   \<and> (\<forall>e' s'. prepare_build_file os build_dir s = Inl (e', s') \<longrightarrow>
        parse_build_tasks os tool build_dir s = (Inl e', s')
        \<and> build_tasks s' = build_tasks s \<and> build_graph s' = build_graph s)
   \<and> (\<forall>s1. prepare_build_file os build_dir s = Inr s1
        \<and> (\<forall>out. targets_all tool (files s1) build_dir \<noteq> Output out) \<longrightarrow>
        parse_build_tasks os tool build_dir s = (Inr False, s1)
        \<and> build_tasks s1 = build_tasks s \<and> build_graph s1 = build_graph s)
   \<and> (\<forall>s1 out. prepare_build_file os build_dir s = Inr s1
        \<and> targets_all tool (files s1) build_dir = Output out
        \<and> (\<forall>tg\<in>set (parse_targets out). query tool (files s1) build_dir tg \<noteq> OtherException) \<longrightarrow>
        parse_build_tasks os tool build_dir s =
          (Inr True,
           s1\<lparr>build_tasks := build_tasks s @
                   map (\<lambda>(tg, deps). new_task tg build_dir deps)
                     (answered (query tool (files s1) build_dir) (parse_targets out)),
               build_graph := fold (\<lambda>(tg, deps). dict_set tg deps)
                     (answered (query tool (files s1) build_dir) (parse_targets out))
                     (build_graph s)\<rparr>))
   \<and> (\<forall>s1 out. prepare_build_file os build_dir s = Inr s1
        \<and> targets_all tool (files s1) build_dir = Output out
        \<and> (\<forall>tg\<in>set (parse_targets out). query tool (files s1) build_dir tg = CalledProcessError) \<longrightarrow>
        parse_build_tasks os tool build_dir s = (Inr True, s1)
        \<and> build_tasks s1 = build_tasks s \<and> build_graph s1 = build_graph s)"
proof (intro conjI allI impI)
  assume "path_exists os (files s) (path_join build_dir ''build.ninja'')"
  then show "prepare_build_file os build_dir s = Inr s"
    by (rule prepare_exists)
next
  assume "\<not> path_exists os (files s) (path_join build_dir ''build.ninja'')
        \<and> makedirs os (files s) build_dir = Succeeds
        \<and> write_file os (files s) (path_join build_dir ''build.ninja'')
             (minimal_build_ninja build_dir) = Succeeds
        \<and> write_file os
             (dict_set (path_join build_dir ''build.ninja'') (minimal_build_ninja build_dir) (files s))
             ''placeholder.cpp'' placeholder_cpp = Succeeds"
  then show "prepare_build_file os build_dir s =
        Inr (s\<lparr>files := dict_set ''placeholder.cpp'' placeholder_cpp
               (dict_set (path_join build_dir ''build.ninja'') (minimal_build_ninja build_dir)
                  (files s))\<rparr>)"
    using prepare_written by blast
next
  assume "\<not> path_exists os (files s) (path_join build_dir ''build.ninja'')
        \<and> (makedirs os (files s) build_dir = Raises e fs
            \<or> makedirs os (files s) build_dir = Succeeds
              \<and> (write_file os (files s) (path_join build_dir ''build.ninja'')
                     (minimal_build_ninja build_dir) = Raises e fs
                  \<or> write_file os (files s) (path_join build_dir ''build.ninja'')
                       (minimal_build_ninja build_dir) = Succeeds
                    \<and> write_file os
                         (dict_set (path_join build_dir ''build.ninja'')
                            (minimal_build_ninja build_dir) (files s))
                         ''placeholder.cpp'' placeholder_cpp = Raises e fs))"
  then have "prepare_build_file os build_dir s = Inl (e, s\<lparr>files := fs\<rparr>)"
    using prepare_makedirs_raises prepare_write_raises prepare_second_write_raises by blast
  then show "parse_build_tasks os tool build_dir s = (Inl e, s\<lparr>files := fs\<rparr>)"
    by (rule parse_after_raise)
next
  fix e' s'
  assume raised: "prepare_build_file os build_dir s = Inl (e', s')"
  from prepare_raises [OF raised] parse_after_raise [OF raised, of tool]
  show "parse_build_tasks os tool build_dir s = (Inl e', s')"
    and "build_tasks s' = build_tasks s" and "build_graph s' = build_graph s"
    by simp_all
next
  fix s1
  assume a: "prepare_build_file os build_dir s = Inr s1
        \<and> (\<forall>out. targets_all tool (files s1) build_dir \<noteq> Output out)"
  then have "list_and_query tool build_dir s1 = (False, s1)"
    using list_and_query_no_listing by blast
  with a parse_after_prepare [of os build_dir s s1 tool] prepare_frame [of os build_dir s s1]
  show "parse_build_tasks os tool build_dir s = (Inr False, s1)"
    and "build_tasks s1 = build_tasks s" and "build_graph s1 = build_graph s"
    by simp_all
next
  fix s1 out
  assume a: "prepare_build_file os build_dir s = Inr s1
        \<and> targets_all tool (files s1) build_dir = Output out
        \<and> (\<forall>tg\<in>set (parse_targets out). query tool (files s1) build_dir tg \<noteq> OtherException)"
  then have prep: "prepare_build_file os build_dir s = Inr s1"
    and listing: "targets_all tool (files s1) build_dir = Output out"
    and queries: "\<forall>tg\<in>set (parse_targets out). query tool (files s1) build_dir tg \<noteq> OtherException"
    by simp_all
  let ?a = "answered (query tool (files s1) build_dir) (parse_targets out)"
  have "list_and_query tool build_dir s1 =
      query_targets (query tool (files s1) build_dir) build_dir (parse_targets out) s1"
    using listing by (rule list_and_query_listing)
  also have "\<dots> = (True, s1\<lparr>build_tasks := build_tasks s1 @
                      map (\<lambda>(tg, deps). new_task tg build_dir deps) ?a,
                  build_graph := fold (\<lambda>(tg, deps). dict_set tg deps) ?a (build_graph s1)\<rparr>)"
    using queries by (rule query_targets_answered)
  finally have "list_and_query tool build_dir s1 =
      (True, s1\<lparr>build_tasks := build_tasks s @
                      map (\<lambda>(tg, deps). new_task tg build_dir deps) ?a,
                  build_graph := fold (\<lambda>(tg, deps). dict_set tg deps) ?a (build_graph s)\<rparr>)"
    unfolding prepare_frame [OF prep] .
  then show "parse_build_tasks os tool build_dir s =
          (Inr True,
           s1\<lparr>build_tasks := build_tasks s @
                   map (\<lambda>(tg, deps). new_task tg build_dir deps) ?a,
               build_graph := fold (\<lambda>(tg, deps). dict_set tg deps) ?a (build_graph s)\<rparr>)"
    unfolding parse_after_prepare [OF prep] by simp
next
  fix s1 out
  assume a: "prepare_build_file os build_dir s = Inr s1
        \<and> targets_all tool (files s1) build_dir = Output out
        \<and> (\<forall>tg\<in>set (parse_targets out). query tool (files s1) build_dir tg = CalledProcessError)"
  then have prep: "prepare_build_file os build_dir s = Inr s1"
    and listing: "targets_all tool (files s1) build_dir = Output out"
    and queries: "\<forall>tg\<in>set (parse_targets out). query tool (files s1) build_dir tg = CalledProcessError"
    by simp_all
  have no_other: "\<forall>tg\<in>set (parse_targets out). query tool (files s1) build_dir tg \<noteq> OtherException"
    using queries by simp
  have "list_and_query tool build_dir s1 =
      query_targets (query tool (files s1) build_dir) build_dir (parse_targets out) s1"
    using listing by (rule list_and_query_listing)
  also have "\<dots> = (True, s1)"
    unfolding query_targets_answered [OF no_other] answered_all_failed [OF queries] by simp
  finally have "list_and_query tool build_dir s1 = (True, s1)" .
  then show "parse_build_tasks os tool build_dir s = (Inr True, s1)"
    unfolding parse_after_prepare [OF prep] by simp
  show "build_tasks s1 = build_tasks s" and "build_graph s1 = build_graph s"
    using prepare_frame [OF prep] by simp_all
qed


theorem parse_build_tasks_outcomes_witness:
  "parse_build_tasks plain_os one_query_fails ''build'' with_ninja_file =
     (Inr True,
      with_ninja_file\<lparr>build_tasks := [new_task ''app'' ''build'' [''input: link'', ''lib'']],
                       build_graph := [(''app'', [''input: link'', ''lib''])]\<rparr>)
   \<and> parse_build_tasks plain_os no_tool [] empty_state = (Inl OSError, empty_state)
   \<and> fst (parse_build_tasks plain_os no_tool ''build'' empty_state) = Inr False"
proof -
  let ?out = "unlines [''lib: cxx'', ''app: link'']"
  let ?written = "empty_state\<lparr>files := dict_set ''placeholder.cpp'' placeholder_cpp
       (dict_set (path_join ''build'' ''build.ninja'') (minimal_build_ninja ''build'')
          (files empty_state))\<rparr>"
  have there: "path_exists plain_os (files with_ninja_file) (path_join ''build'' ''build.ninja'')"
    by (simp add: plain_os_def with_ninja_file_def path_join_def)
  have listing: "targets_all one_query_fails fs ''build'' = Output ?out" for fs
    by (simp add: one_query_fails_def)
  have queries: "\<forall>tg\<in>set (parse_targets ?out). query one_query_fails fs ''build'' tg \<noteq> OtherException" for fs
    by (simp add: one_query_fails_def)
  have a: "answered (query one_query_fails fs ''build'') (parse_targets ?out) =
      [(''app'', [''input: link'', ''lib''])]" for fs
    by (simp add: one_query_fails_def answered_def parse_targets_def parse_deps_def unlines_def
        splitlines_def py_linebreaks_def match_len_def startswith_def strip_def py_spaces_def)
  have s0: "build_tasks with_ninja_file = []" "build_graph with_ninja_file = []"
    by (simp_all add: with_ninja_file_def empty_state_def example_state_def)
  note here = parse_build_tasks_outcomes [where os = plain_os and tool = one_query_fails
      and build_dir = "''build''" and s = with_ninja_file]
  have prep: "prepare_build_file plain_os ''build'' with_ninja_file = Inr with_ninja_file"
    using here there by blast
  have ok: "parse_build_tasks plain_os one_query_fails ''build'' with_ninja_file =
     (Inr True,
      with_ninja_file\<lparr>build_tasks := [new_task ''app'' ''build'' [''input: link'', ''lib'']],
                       build_graph := [(''app'', [''input: link'', ''lib''])]\<rparr>)"
    using here [THEN conjunct2, THEN conjunct2, THEN conjunct2, THEN conjunct2, THEN conjunct2,
        THEN conjunct1, THEN spec, THEN spec, THEN mp, OF conjI [OF prep conjI [OF listing queries]]]
    unfolding a s0 by simp
  have absent: "\<not> path_exists plain_os (files empty_state) (path_join p ''build.ninja'')" for p
    by (simp add: plain_os_def empty_state_def example_state_def)
  have refused: "makedirs plain_os (files empty_state) [] = Raises OSError []"
    by (simp add: plain_os_def empty_state_def example_state_def)
  have same: "empty_state\<lparr>files := []\<rparr> = empty_state"
    by (simp add: empty_state_def example_state_def)
  have raised: "parse_build_tasks plain_os no_tool [] empty_state = (Inl OSError, empty_state)"
    using parse_build_tasks_outcomes [where os = plain_os and tool = no_tool and build_dir = "[]"
        and s = empty_state and fs = "[]" and e = OSError] absent [of "[]"] refused same
    by simp
  have made: "makedirs plain_os fs ''build'' = Succeeds" "write_file plain_os fs p c = Succeeds"
    for fs p c
    by (simp_all add: plain_os_def)
  note there' = parse_build_tasks_outcomes [where os = plain_os and tool = no_tool
      and build_dir = "''build''" and s = empty_state]
  have prep': "prepare_build_file plain_os ''build'' empty_state = Inr ?written"
    using there' absent [of "''build''"] made by blast
  have dead: "\<forall>out. targets_all no_tool fs ''build'' \<noteq> Output out" for fs
    by (simp add: no_tool_def)
  have "parse_build_tasks plain_os no_tool ''build'' empty_state = (Inr False, ?written)"
    using there' [THEN conjunct2, THEN conjunct2, THEN conjunct2, THEN conjunct2,
        THEN conjunct1, THEN spec, THEN mp, OF conjI [OF prep' dead]]
    by blast
  then have failed: "fst (parse_build_tasks plain_os no_tool ''build'' empty_state) = Inr False"
    by simp
  from ok raised failed show ?thesis
    by blast
qed

section \<open>Properties of agent discovery\<close>


lemma probe_failure_unchanged:
  "probe_fails env h p \<Longrightarrow> probe_and_register_agent env h p s = s"
  by (auto simp: probe_fails_def probe_and_register_agent_def Let_def
      split: probe_io.splits option.splits)

lemma probe_success_registers:
  "connect env h p = Received raw \<Longrightarrow> startswith (strip raw) ''NINJA-AGENT:'' \<Longrightarrow>
   agent_payload env (drop 12 (strip raw)) = Some (n, c, m) \<Longrightarrow>
   probe_and_register_agent env h p s =
     s\<lparr>agents := dict_set n
          \<lparr>name = n, host = h, port = p, cores = c, a_status = ''idle'', current_task = None,
           load = 0, available_memory = m, last_seen = clock env h p\<rparr> (agents s)\<rparr>"
  by (simp add: probe_and_register_agent_def Let_def)

lemma probe_not_failed:
  "\<not> probe_fails env h p \<Longrightarrow>
     \<exists>raw n c m. connect env h p = Received raw \<and> startswith (strip raw) ''NINJA-AGENT:''
       \<and> agent_payload env (drop 12 (strip raw)) = Some (n, c, m)"
  by (auto simp: probe_fails_def split: probe_io.splits)

lemma hosts_loop_all_fail:
  "\<forall>h p. probe_fails env h p \<Longrightarrow> hosts_loop env ls s = s"
proof (induction ls)
  case Nil
  then show ?case by simp
next
  case (Cons line rest)
  then have "probe_and_register_agent env h p s = s" for h p
    by (simp add: probe_failure_unchanged)
  with Cons show ?case
    by (simp add: Let_def split: list.splits option.splits)
qed

lemma hosts_loop_default_port:
  assumes "strip line \<noteq> []" "\<not> startswith (strip line) ''#''" "split (strip line) = [h]"
  shows "hosts_loop env (line # rest) s =
           hosts_loop env rest (probe_and_register_agent env h DEFAULT_PORT s)"
  using assms by (simp add: Let_def)

lemma hosts_loop_given_port:
  assumes "strip line \<noteq> []" "\<not> startswith (strip line) ''#''"
    "split (strip line) = h # port_text # others" "py_int env port_text = Some p"
  shows "hosts_loop env (line # rest) s = hosts_loop env rest (probe_and_register_agent env h p s)"
  using assms by (simp add: Let_def)

lemma hosts_loop_bad_port:
  assumes "strip line \<noteq> []" "\<not> startswith (strip line) ''#''"
    "split (strip line) = h # port_text # others" "py_int env port_text = None"
  shows "hosts_loop env (line # rest) s = s"
  using assms by (simp add: Let_def)

lemma hosts_loop_skipped_line:
  assumes "strip line = [] \<or> startswith (strip line) ''#''"
  shows "hosts_loop env (line # rest) s = hosts_loop env rest s"
  using assms by (auto simp: Let_def)

text \<open>
  Claim C9. A probe that fails (connection refused, timeout, undecodable reply, or a reply
  without the agent prefix and a readable payload) leaves the whole state, and so the
  registry, unchanged. A probe that does not fail received a reply with the prefix and a
  payload, and registers the agent described by it under its name. The loop over the hosts
  file probes the host of every line that is neither blank nor a comment, at the port the
  line gives or at the default port, and goes on with the remaining lines from the state
  the probe left; so a line whose probe fails is skipped and the remaining hosts are still
  probed. Blank lines and comments are passed over; a port that is not a number ends the
  loop. Discovery from a hosts file is this loop over the lines of the file, and nothing
  when the file cannot be opened. When every probe fails, discovery from a hosts file
  changes nothing.
\<close>

theorem probe_failure_registers_nothing:
  "(probe_fails env h p \<longrightarrow> probe_and_register_agent env h p s = s)
   \<and> (\<not> probe_fails env h p \<longrightarrow>
        (\<exists>raw n c m. connect env h p = Received raw \<and> startswith (strip raw) ''NINJA-AGENT:''
           \<and> agent_payload env (drop 12 (strip raw)) = Some (n, c, m)
           \<and> probe_and_register_agent env h p s =
               s\<lparr>agents := dict_set n
                    \<lparr>name = n, host = h, port = p, cores = c, a_status = ''idle'',
                     current_task = None, load = 0, available_memory = m,
                     last_seen = clock env h p\<rparr> (agents s)\<rparr>))
   \<and> (strip line \<noteq> [] \<and> \<not> startswith (strip line) ''#'' \<and> split (strip line) = [h] \<longrightarrow>
        hosts_loop env (line # rest) s =
          hosts_loop env rest (probe_and_register_agent env h DEFAULT_PORT s)
        \<and> (probe_fails env h DEFAULT_PORT \<longrightarrow>
             hosts_loop env (line # rest) s = hosts_loop env rest s))
   \<and> (strip line \<noteq> [] \<and> \<not> startswith (strip line) ''#''
        \<and> split (strip line) = h # port_text # others \<and> py_int env port_text = Some p \<longrightarrow>
        hosts_loop env (line # rest) s = hosts_loop env rest (probe_and_register_agent env h p s)
        \<and> (probe_fails env h p \<longrightarrow> hosts_loop env (line # rest) s = hosts_loop env rest s))
   \<and> (strip line \<noteq> [] \<and> \<not> startswith (strip line) ''#''
        \<and> split (strip line) = h # port_text # others \<and> py_int env port_text = None \<longrightarrow>
        hosts_loop env (line # rest) s = s)
   \<and> (strip line = [] \<or> startswith (strip line) ''#'' \<longrightarrow>
        hosts_loop env (line # rest) s = hosts_loop env rest s)
   \<and> hosts_loop env [] s = s
   \<and> discover_from_hosts_file env (Some ls) s = hosts_loop env ls s
   \<and> discover_from_hosts_file env None s = s
   \<and> ((\<forall>h' p'. probe_fails env h' p') \<longrightarrow> discover_from_hosts_file env hosts_file s = s)"
proof (intro conjI impI)
  assume "probe_fails env h p"
  then show "probe_and_register_agent env h p s = s"
    by (rule probe_failure_unchanged)
next
  assume "\<not> probe_fails env h p"
  from probe_not_failed [OF this] obtain raw n c m where
    ok: "connect env h p = Received raw" "startswith (strip raw) ''NINJA-AGENT:''"
      "agent_payload env (drop 12 (strip raw)) = Some (n, c, m)"
    by blast
  from ok probe_success_registers [OF ok, of s]
  show "\<exists>raw n c m. connect env h p = Received raw \<and> startswith (strip raw) ''NINJA-AGENT:''
           \<and> agent_payload env (drop 12 (strip raw)) = Some (n, c, m)
           \<and> probe_and_register_agent env h p s =
               s\<lparr>agents := dict_set n
                    \<lparr>name = n, host = h, port = p, cores = c, a_status = ''idle'',
                     current_task = None, load = 0, available_memory = m,
                     last_seen = clock env h p\<rparr> (agents s)\<rparr>"
    by blast
next
  assume a: "strip line \<noteq> [] \<and> \<not> startswith (strip line) ''#'' \<and> split (strip line) = [h]"
  then show step: "hosts_loop env (line # rest) s =
          hosts_loop env rest (probe_and_register_agent env h DEFAULT_PORT s)"
    using hosts_loop_default_port by blast
  assume "probe_fails env h DEFAULT_PORT"
  then show "hosts_loop env (line # rest) s = hosts_loop env rest s"
    unfolding step by (simp add: probe_failure_unchanged)
next
  assume a: "strip line \<noteq> [] \<and> \<not> startswith (strip line) ''#''
        \<and> split (strip line) = h # port_text # others \<and> py_int env port_text = Some p"
  then show step: "hosts_loop env (line # rest) s =
      hosts_loop env rest (probe_and_register_agent env h p s)"
    using hosts_loop_given_port by blast
  assume "probe_fails env h p"
  then show "hosts_loop env (line # rest) s = hosts_loop env rest s"
    unfolding step by (simp add: probe_failure_unchanged)
next
  assume "strip line \<noteq> [] \<and> \<not> startswith (strip line) ''#''
        \<and> split (strip line) = h # port_text # others \<and> py_int env port_text = None"
  then show "hosts_loop env (line # rest) s = s"
    using hosts_loop_bad_port by blast
next
  assume "strip line = [] \<or> startswith (strip line) ''#''"
  then show "hosts_loop env (line # rest) s = hosts_loop env rest s"
    by (rule hosts_loop_skipped_line)
next
  show "hosts_loop env [] s = s"
    by simp
next
  show "discover_from_hosts_file env (Some ls) s = hosts_loop env ls s"
    by (simp add: discover_from_hosts_file_def)
next
  show "discover_from_hosts_file env None s = s"
    by (simp add: discover_from_hosts_file_def)
next
  assume "\<forall>h' p'. probe_fails env h' p'"
  then show "discover_from_hosts_file env hosts_file s = s"
    by (cases hosts_file) (simp_all add: discover_from_hosts_file_def hosts_loop_all_fail)
qed


theorem probe_failure_registers_nothing_witness:
  "probe_fails example_env ''h1'' 9000
   \<and> probe_and_register_agent example_env ''h1'' 9000 empty_state = empty_state
   \<and> hosts_loop example_env example_hosts empty_state =
       hosts_loop example_env (tl example_hosts) empty_state
   \<and> strip (''h2'' @ [CHR 0xC2, CHR 0xA0, CHR 0x0A]) = ''h2''
   \<and> discover_from_hosts_file example_env (Some example_hosts) empty_state =
       hosts_loop example_env example_hosts empty_state
   \<and> agents (hosts_loop example_env example_hosts empty_state) =
       [(''w2'', \<lparr>name = ''w2'', host = ''h2'', port = 8374, cores = 8, a_status = ''idle'',
                 current_task = None, load = 0, available_memory = 4096, last_seen = 50\<rparr>)]"
proof -
  let ?line = "''h1 9000'' @ [CHR 0x0A]"
  have refused: "probe_fails example_env ''h1'' 9000"
    by (simp add: probe_fails_def example_env_def)
  have line: "strip ?line \<noteq> []" "\<not> startswith (strip ?line) ''#''"
    "split (strip ?line) = ''h1'' # ''9000'' # []"
    by code_simp+
  have port_no: "py_int example_env ''9000'' = Some 9000"
    by (simp add: example_env_def)
  have hosts: "example_hosts = ?line # tl example_hosts"
    by (simp add: example_hosts_def)
  note step = probe_failure_registers_nothing [where env = example_env and h = "''h1''"
      and p = 9000 and s = empty_state and line = ?line and port_text = "''9000''"
      and others = "[]" and rest = "tl example_hosts" and ls = example_hosts]
  have unchanged: "probe_and_register_agent example_env ''h1'' 9000 empty_state = empty_state"
    using step refused by blast
  have "hosts_loop example_env (?line # tl example_hosts) empty_state =
       hosts_loop example_env (tl example_hosts) empty_state"
    using step refused line port_no by blast
  then have skipped: "hosts_loop example_env example_hosts empty_state =
       hosts_loop example_env (tl example_hosts) empty_state"
    by (subst (1) hosts) simp
  have nbsp: "strip (''h2'' @ [CHR 0xC2, CHR 0xA0, CHR 0x0A]) = ''h2''"
    by code_simp
  have whole: "discover_from_hosts_file example_env (Some example_hosts) empty_state =
       hosts_loop example_env example_hosts empty_state"
    using step by blast
  have final: "agents (hosts_loop example_env example_hosts empty_state) =
       [(''w2'', \<lparr>name = ''w2'', host = ''h2'', port = 8374, cores = 8, a_status = ''idle'',
                 current_task = None, load = 0, available_memory = 4096, last_seen = 50\<rparr>)]"
    by code_simp
  from refused unchanged skipped nbsp whole final show ?thesis
    by blast
qed

end
